theory Spec2Isabelle
  imports Complex_Main
begin

section \<open>JavaScript numbers\<close>

text \<open>
  The scoring engine of facerateAI computes on JavaScript numbers, which are IEEE 754
  binary64 values. A number is modelled as a finite real value, one of the two infinities,
  or NaN, and every arithmetic operation rounds its exact result to the nearest double,
  a tie to the even significand; a result beyond the largest double becomes an infinity
  and one below the smallest subnormal becomes zero. The two zeros are one value: every
  divisor of the program is a distance (a square root), a mean of distances or a positive
  constant, so a zero divisor is always the positive zero, which is how a zero divisor is
  read here.
\<close>

datatype number = Fin real | PosInf | NegInf | NaN

subsection \<open>Rounding to the nearest double\<close>

text \<open>
  \<open>rne\<close> rounds a real to the nearest integer, a tie to the even one. A double near \<open>x\<close>
  is an integer multiple of \<open>2 powi expo x\<close>: the significand has 53 bits, and below
  \<open>2 powi (- 1022)\<close> the doubles are the subnormal multiples of \<open>2 powi (- 1074)\<close>.
  \<open>nearest\<close> is the rounding with an unbounded exponent range, and \<open>fl\<close> the result of an
  operation whose exact value is \<open>x\<close>: it overflows when \<open>nearest\<close> reaches \<open>2 ^ 1024\<close>.
\<close>

definition rne :: "real \<Rightarrow> int" where
  "rne m = (let f = \<lfloor>m\<rfloor>; r = m - of_int f
            in if r < 1 / 2 then f else if 1 / 2 < r then f + 1
               else if even f then f else f + 1)"

definition expo :: "real \<Rightarrow> int" where
  "expo x = max (\<lfloor>log 2 \<bar>x\<bar>\<rfloor> - 52) (- 1074)"

definition nearest :: "real \<Rightarrow> real" where
  "nearest x = (let e = expo x in of_int (rne (x / 2 powi e)) * 2 powi e)"

definition fl :: "real \<Rightarrow> number" where
  "fl x = (let y = nearest x
           in if 2 ^ 1024 \<le> \<bar>y\<bar> then (if 0 < x then PosInf else NegInf) else Fin y)"

text \<open>A numeric literal of the source denotes the double nearest to its decimal value.\<close>

definition lit :: "real \<Rightarrow> number" where
  "lit x = fl x"

subsection \<open>Arithmetic and comparison\<close>

instantiation number :: "{zero, one, uminus, abs, plus, minus, times, inverse, ord}"
begin

definition zero_number :: number where "zero_number = Fin 0"

definition one_number :: number where "one_number = Fin 1"

fun uminus_number :: "number \<Rightarrow> number" where
  "uminus_number (Fin a) = Fin (- a)"
| "uminus_number PosInf = NegInf"
| "uminus_number NegInf = PosInf"
| "uminus_number NaN = NaN"

fun abs_number :: "number \<Rightarrow> number" where
  "abs_number (Fin a) = Fin \<bar>a\<bar>"
| "abs_number PosInf = PosInf"
| "abs_number NegInf = PosInf"
| "abs_number NaN = NaN"

fun plus_number :: "number \<Rightarrow> number \<Rightarrow> number" where
  "plus_number (Fin a) (Fin b) = fl (a + b)"
| "plus_number (Fin a) PosInf = PosInf"
| "plus_number (Fin a) NegInf = NegInf"
| "plus_number PosInf (Fin b) = PosInf"
| "plus_number PosInf PosInf = PosInf"
| "plus_number PosInf NegInf = NaN"
| "plus_number NegInf (Fin b) = NegInf"
| "plus_number NegInf PosInf = NaN"
| "plus_number NegInf NegInf = NegInf"
| "plus_number NaN b = NaN"
| "plus_number a NaN = NaN"

definition minus_number :: "number \<Rightarrow> number \<Rightarrow> number" where
  "minus_number a b = a + (- b)"

fun times_number :: "number \<Rightarrow> number \<Rightarrow> number" where
  "times_number (Fin a) (Fin b) = fl (a * b)"
| "times_number (Fin a) PosInf = (if a = 0 then NaN else if 0 < a then PosInf else NegInf)"
| "times_number (Fin a) NegInf = (if a = 0 then NaN else if 0 < a then NegInf else PosInf)"
| "times_number PosInf (Fin b) = (if b = 0 then NaN else if 0 < b then PosInf else NegInf)"
| "times_number NegInf (Fin b) = (if b = 0 then NaN else if 0 < b then NegInf else PosInf)"
| "times_number PosInf PosInf = PosInf"
| "times_number PosInf NegInf = NegInf"
| "times_number NegInf PosInf = NegInf"
| "times_number NegInf NegInf = PosInf"
| "times_number NaN b = NaN"
| "times_number a NaN = NaN"

fun divide_number :: "number \<Rightarrow> number \<Rightarrow> number" where
  "divide_number (Fin a) (Fin b) =
     (if b \<noteq> 0 then fl (a / b)
      else if a = 0 then NaN else if 0 < a then PosInf else NegInf)"
| "divide_number (Fin a) PosInf = Fin 0"
| "divide_number (Fin a) NegInf = Fin 0"
| "divide_number PosInf (Fin b) = (if 0 \<le> b then PosInf else NegInf)"
| "divide_number NegInf (Fin b) = (if 0 \<le> b then NegInf else PosInf)"
| "divide_number PosInf PosInf = NaN"
| "divide_number PosInf NegInf = NaN"
| "divide_number NegInf PosInf = NaN"
| "divide_number NegInf NegInf = NaN"
| "divide_number NaN b = NaN"
| "divide_number a NaN = NaN"

fun inverse_number :: "number \<Rightarrow> number" where
  "inverse_number (Fin b) = (if b \<noteq> 0 then fl (1 / b) else PosInf)"
| "inverse_number PosInf = Fin 0"
| "inverse_number NegInf = Fin 0"
| "inverse_number NaN = NaN"

fun less_number :: "number \<Rightarrow> number \<Rightarrow> bool" where
  "less_number (Fin a) (Fin b) = (a < b)"
| "less_number (Fin a) PosInf = True"
| "less_number NegInf (Fin b) = True"
| "less_number NegInf PosInf = True"
| "less_number a b = False"

fun less_eq_number :: "number \<Rightarrow> number \<Rightarrow> bool" where
  "less_eq_number (Fin a) (Fin b) = (a \<le> b)"
| "less_eq_number (Fin a) PosInf = True"
| "less_eq_number NegInf (Fin b) = True"
| "less_eq_number NegInf PosInf = True"
| "less_eq_number PosInf PosInf = True"
| "less_eq_number NegInf NegInf = True"
| "less_eq_number a b = False"

instance ..

end

instance number :: power ..

text \<open>The functions of \<^verbatim>\<open>Math\<close> that the program calls. \<^verbatim>\<open>Math.sqrt\<close> is correctly
  rounded.\<close>

fun Math_sqrt :: "number \<Rightarrow> number" where
  "Math_sqrt (Fin a) = (if a < 0 then NaN else fl (sqrt a))"
| "Math_sqrt PosInf = PosInf"
| "Math_sqrt NegInf = NaN"
| "Math_sqrt NaN = NaN"

text \<open>\<^verbatim>\<open>Math.pow\<close> is only called with the literal exponent 2. There it is the rounded
  product \<open>b * b\<close>: the implementations of \<^verbatim>\<open>pow\<close> that the JavaScript engines derive from
  fdlibm return \<^verbatim>\<open>x * x\<close> for the exponent 2. Another natural exponent is read as
  repeated multiplication.\<close>

definition Math_pow :: "number \<Rightarrow> nat \<Rightarrow> number" where
  "Math_pow b e = (if e = 2 then b * b else b ^ e)"

definition Math_abs :: "number \<Rightarrow> number" where
  "Math_abs a = \<bar>a\<bar>"

fun max2 :: "number \<Rightarrow> number \<Rightarrow> number" where
  "max2 NaN b = NaN"
| "max2 a NaN = NaN"
| "max2 a b = (if a < b then b else a)"

fun min2 :: "number \<Rightarrow> number \<Rightarrow> number" where
  "min2 NaN b = NaN"
| "min2 a NaN = NaN"
| "min2 a b = (if b < a then b else a)"

text \<open>\<^verbatim>\<open>Math.max(...)\<close> and \<^verbatim>\<open>Math.min(...)\<close> take any number of arguments, start from
  \<open>-Infinity\<close> and \<open>+Infinity\<close>, and are NaN as soon as one argument is.\<close>

definition Math_max :: "number list \<Rightarrow> number" where
  "Math_max xs = foldl max2 NegInf xs"

definition Math_min :: "number list \<Rightarrow> number" where
  "Math_min xs = foldl min2 PosInf xs"

text \<open>\<^verbatim>\<open>Math.round\<close> rounds to the nearest integer, a tie towards \<open>+Infinity\<close>; its
  result is exact.\<close>

fun Math_round :: "number \<Rightarrow> number" where
  "Math_round (Fin a) = Fin (of_int \<lfloor>a + 1 / 2\<rfloor>)"
| "Math_round PosInf = PosInf"
| "Math_round NegInf = NegInf"
| "Math_round NaN = NaN"

section \<open>Utility functions\<close>

text \<open>
  Both \<^verbatim>\<open>src/lib/analyzeFace.ts\<close> (the Basic implementation) and
  \<^verbatim>\<open>src/unnamed/part_000\<close> (the Extended implementation) open with the same three
  helpers, lines 6 to 9. \<open>norm\<close> and \<open>dist\<close> are constants of HOL, so the helpers of
  those names carry a suffix; the parameters \<open>min\<close> and \<open>max\<close> of \<open>norm\<close> are
  \<open>mn\<close> and \<open>mx\<close>, and the fields \<open>x\<close> and \<open>y\<close> of a point are \<open>px\<close> and \<open>py\<close>.
\<close>

record point =
  px :: number
  py :: number

definition clamp :: "number \<Rightarrow> number \<Rightarrow> number \<Rightarrow> number" where
  "clamp x a b = Math_max [a, Math_min [x, b]]"

definition norm_js :: "number \<Rightarrow> number \<Rightarrow> number \<Rightarrow> number" where
  "norm_js x mn mx = clamp (((x - mn) / (mx - mn)) * lit 100) (lit 0) (lit 100)"

definition dist_js :: "point \<Rightarrow> point \<Rightarrow> number" where
  "dist_js p1 p2 = Math_sqrt (Math_pow (px p1 - px p2) 2 + Math_pow (py p1 - py p2) 2)"

section \<open>Data model\<close>

text \<open>The record that \<^verbatim>\<open>getQualityMetrics\<close> returns; the module \<^verbatim>\<open>./quality\<close> is not
  part of the sources, so the record is an input of the model.\<close>

record QualityMetrics =
  sharpness :: number
  brightness :: number
  contrast :: number

text \<open>The interface \<^verbatim>\<open>AnalysisResult\<close> of the Basic implementation, and the one of the
  Extended implementation, which has the same fields and eight more.\<close>

record AnalysisResult_basic =
  overall :: number
  potential :: number
  masculinity :: number
  skin_quality :: number
  jawline :: number
  cheekbones :: number
  warnings :: "string list"

record AnalysisResult = AnalysisResult_basic +
  symmetry :: number
  golden_ratio :: number
  facial_thirds :: number
  facial_fifths :: number
  eye_score :: number
  nose_score :: number
  landmarks :: "point list"

text \<open>
  What \<^verbatim>\<open>analyzeFace\<close> can throw: \<^verbatim>\<open>new Error('NO_FACE_DETECTED')\<close>, and the
  \<^verbatim>\<open>TypeError\<close> of the runtime when \<^verbatim>\<open>keypoints[idx]\<close> is \<^verbatim>\<open>undefined\<close> and its
  property \<^verbatim>\<open>x\<close> is read. \<open>error_name\<close> is the \<^verbatim>\<open>name\<close> property of the thrown object.
\<close>

datatype thrown = Error string | TypeError

fun error_name :: "thrown \<Rightarrow> string" where
  "error_name (Error m) = ''Error''"
| "error_name TypeError = ''TypeError''"

definition andThen :: "thrown + 'a \<Rightarrow> ('a \<Rightarrow> thrown + 'b) \<Rightarrow> thrown + 'b" where
  "andThen r f = (case r of Inl e \<Rightarrow> Inl e | Inr v \<Rightarrow> f v)"

text \<open>\<^verbatim>\<open>const getKeypoint = (idx) => ({ x: keypoints[idx].x, y: keypoints[idx].y })\<close>:
  an index past the end of the array reads \<^verbatim>\<open>undefined\<close>, whose property access throws.\<close>

definition getKeypoint :: "point list \<Rightarrow> nat \<Rightarrow> thrown + point" where
  "getKeypoint keypoints idx =
     (if idx < length keypoints
      then Inr \<lparr>px = px (keypoints ! idx), py = py (keypoints ! idx)\<rparr>
      else Inl TypeError)"

text \<open>The named points, which are locals of \<^verbatim>\<open>analyzeFace\<close>, in the order in which the
  program reads them: the nine of the Basic implementation, then the fifteen more of the
  Extended one.\<close>

record Landmarks_basic =
  forehead_top :: point
  chin_bottom :: point
  face_left :: point
  face_right :: point
  cheek_left :: point
  cheek_right :: point
  jaw_left :: point
  jaw_right :: point
  mouth_bottom :: point

record Landmarks = Landmarks_basic +
  eye_right_outer :: point
  eye_right_inner :: point
  eye_left_inner :: point
  eye_left_outer :: point
  eye_right_top :: point
  eye_right_bottom :: point
  eye_left_top :: point
  eye_left_bottom :: point
  nose_center :: point
  nose_base :: point
  nose_tip :: point
  mouth_left :: point
  mouth_right :: point
  nose_left :: point
  nose_right :: point

section \<open>The Basic implementation (src/lib/analyzeFace.ts)\<close>

text \<open>Lines 114 to 129: the penalty and the warnings, two locals updated in sequence.\<close>

definition photo_basic :: "QualityMetrics \<Rightarrow> number \<times> string list" where
  "photo_basic q =
    (let photo_penalty = lit 0;
         warnings = [];
         (photo_penalty, warnings) =
           (if sharpness q \<le> lit 150
            then (photo_penalty + lit 15, warnings @ [''low_sharpness''])
            else (photo_penalty, warnings));
         (photo_penalty, warnings) =
           (if brightness q < lit 90 \<or> brightness q > lit 160
            then (photo_penalty + lit 10, warnings @ [''bad_brightness''])
            else (photo_penalty, warnings));
         (photo_penalty, warnings) =
           (if contrast q \<le> lit 35
            then (photo_penalty + lit 10, warnings @ [''low_contrast''])
            else (photo_penalty, warnings))
     in (photo_penalty, warnings))"

text \<open>Lines 71 to 141: everything after the landmarks are read.\<close>

definition scores_basic :: "Landmarks_basic \<Rightarrow> QualityMetrics \<Rightarrow> AnalysisResult_basic" where
  "scores_basic lm q =
    (let face_width = dist_js (face_left lm) (face_right lm);
         face_height = dist_js (forehead_top lm) (chin_bottom lm);
         jaw_width = dist_js (jaw_left lm) (jaw_right lm);
         cheek_width = dist_js (cheek_left lm) (cheek_right lm);
         chin_length = dist_js (mouth_bottom lm) (chin_bottom lm);
         jaw_ratio = jaw_width / face_width;
         chin_ratio = chin_length / face_height;
         cheek_ratio = cheek_width / jaw_width;
         face_ratio = face_width / face_height;
         jawline = Math_round (lit 0.7 * norm_js jaw_ratio (lit 0.60) (lit 0.85)
                                + lit 0.3 * norm_js chin_ratio (lit 0.08) (lit 0.14));
         cheekbones = Math_round (norm_js cheek_ratio (lit 0.95) (lit 1.25));
         sharp = norm_js (sharpness q) (lit 50) (lit 250);
         contr = norm_js (contrast q) (lit 20) (lit 70);
         brightCenter = norm_js (brightness q) (lit 80) (lit 170);
         brightScore = lit 100 - Math_abs (brightCenter - lit 50) * lit 2;
         skin_quality = Math_round (lit 0.5 * sharp + lit 0.3 * contr
                                     + lit 0.2 * clamp brightScore (lit 0) (lit 100));
         masculinity = Math_round (lit 0.6 * norm_js jaw_ratio (lit 0.60) (lit 0.85)
                                    + lit 0.4 * norm_js face_ratio (lit 0.65) (lit 0.90));
         overall = Math_round (lit 0.30 * jawline + lit 0.25 * cheekbones + lit 0.20 * skin_quality
                                + lit 0.25 * masculinity);
         (photo_penalty, warnings) = photo_basic q;
         potential = Math_round (clamp (overall + photo_penalty) (lit 0) (lit 100))
     in \<lparr>overall = overall, potential = potential, masculinity = masculinity,
         skin_quality = skin_quality, jawline = jawline, cheekbones = cheekbones,
         warnings = warnings\<rparr>)"

text \<open>Lines 47 to 69: the detector's faces are an input of the model; the first face's
  keypoints are read at nine fixed indices.\<close>

definition analyzeFace_basic :: "point list list \<Rightarrow> QualityMetrics \<Rightarrow> thrown + AnalysisResult_basic" where
  "analyzeFace_basic faces q =
    (if length faces = 0 then Inl (Error ''NO_FACE_DETECTED'')
     else
       let keypoints = faces ! 0 in
       andThen (getKeypoint keypoints 10) (\<lambda>forehead_top.
       andThen (getKeypoint keypoints 152) (\<lambda>chin_bottom.
       andThen (getKeypoint keypoints 234) (\<lambda>face_left.
       andThen (getKeypoint keypoints 454) (\<lambda>face_right.
       andThen (getKeypoint keypoints 123) (\<lambda>cheek_left.
       andThen (getKeypoint keypoints 352) (\<lambda>cheek_right.
       andThen (getKeypoint keypoints 172) (\<lambda>jaw_left.
       andThen (getKeypoint keypoints 397) (\<lambda>jaw_right.
       andThen (getKeypoint keypoints 14) (\<lambda>mouth_bottom.
       Inr (scores_basic
         \<lparr>forehead_top = forehead_top, chin_bottom = chin_bottom, face_left = face_left,
          face_right = face_right, cheek_left = cheek_left, cheek_right = cheek_right,
          jaw_left = jaw_left, jaw_right = jaw_right, mouth_bottom = mouth_bottom\<rparr> q)))))))))))"

section \<open>The Extended implementation (src/unnamed/part_000)\<close>

text \<open>Lines 58 to 70.\<close>

definition calculateSymmetry :: "point \<Rightarrow> point \<Rightarrow> point \<Rightarrow> number" where
  "calculateSymmetry centerPoint leftPoint rightPoint =
    (let leftDist = dist_js centerPoint leftPoint;
         rightDist = dist_js centerPoint rightPoint;
         difference = Math_abs (leftDist - rightDist);
         average = (leftDist + rightDist) / lit 2
     in if average > lit 0 then (lit 1 - difference / average) * lit 100 else lit 100)"

text \<open>Lines 73 to 80; the callers leave the second parameter to its default \<open>PHI\<close>.\<close>

definition PHI :: number where
  "PHI = lit 1.618"

definition calculateGoldenRatioScore :: "number \<Rightarrow> number \<Rightarrow> number" where
  "calculateGoldenRatioScore ratio idealPhi =
    (let difference = Math_abs (ratio - idealPhi);
         maxDeviation = lit 0.5;
         score = Math_max [lit 0, (lit 1 - difference / maxDeviation)] * lit 100
     in clamp score (lit 0) (lit 100))"

text \<open>Lines 264 to 279.\<close>

definition photo_extended :: "QualityMetrics \<Rightarrow> number \<times> string list" where
  "photo_extended q =
    (let photo_penalty = lit 0;
         warnings = [];
         (photo_penalty, warnings) =
           (if sharpness q \<le> lit 150
            then (photo_penalty + lit 15, warnings @ [''low_sharpness''])
            else (photo_penalty, warnings));
         (photo_penalty, warnings) =
           (if brightness q < lit 90 \<or> brightness q > lit 160
            then (photo_penalty + lit 10, warnings @ [''bad_brightness''])
            else (photo_penalty, warnings));
         (photo_penalty, warnings) =
           (if contrast q \<le> lit 35
            then (photo_penalty + lit 10, warnings @ [''low_contrast''])
            else (photo_penalty, warnings))
     in (photo_penalty, warnings))"

text \<open>Lines 134 to 298. The locals \<^verbatim>\<open>leftTilt\<close>, \<^verbatim>\<open>leftTiltAngle\<close> and
  \<^verbatim>\<open>rightTiltAngle\<close> (lines 224 to 228) are computed and never read; they are left out.\<close>

definition scores_extended :: "Landmarks \<Rightarrow> point list \<Rightarrow> QualityMetrics \<Rightarrow> AnalysisResult" where
  "scores_extended lm keypoints q =
    (let face_width = dist_js (face_left lm) (face_right lm);
         face_height = dist_js (forehead_top lm) (chin_bottom lm);
         jaw_width = dist_js (jaw_left lm) (jaw_right lm);
         cheek_width = dist_js (cheek_left lm) (cheek_right lm);
         chin_length = dist_js (mouth_bottom lm) (chin_bottom lm);
         jaw_ratio = jaw_width / face_width;
         chin_ratio = chin_length / face_height;
         cheek_ratio = cheek_width / jaw_width;
         face_ratio = face_width / face_height;
         jawline = Math_round (lit 0.7 * norm_js jaw_ratio (lit 0.60) (lit 0.85)
                                + lit 0.3 * norm_js chin_ratio (lit 0.08) (lit 0.14));
         cheekbones = Math_round (norm_js cheek_ratio (lit 0.95) (lit 1.25));
         sharp = norm_js (sharpness q) (lit 50) (lit 250);
         contr = norm_js (contrast q) (lit 20) (lit 70);
         brightCenter = norm_js (brightness q) (lit 80) (lit 170);
         brightScore = lit 100 - Math_abs (brightCenter - lit 50) * lit 2;
         skin_quality = Math_round (lit 0.5 * sharp + lit 0.3 * contr
                                     + lit 0.2 * clamp brightScore (lit 0) (lit 100));
         masculinity = Math_round (lit 0.6 * norm_js jaw_ratio (lit 0.60) (lit 0.85)
                                    + lit 0.4 * norm_js face_ratio (lit 0.65) (lit 0.90));
         eyeSymmetry = calculateSymmetry (nose_center lm) (eye_left_outer lm) (eye_right_outer lm);
         cheekSymmetry = calculateSymmetry (nose_center lm) (cheek_left lm) (cheek_right lm);
         jawSymmetry = calculateSymmetry (nose_center lm) (jaw_left lm) (jaw_right lm);
         symmetry = Math_round ((eyeSymmetry + cheekSymmetry + jawSymmetry) / lit 3);
         faceHeightToWidth = face_height / face_width;
         noseToTopDist = dist_js (forehead_top lm) (nose_center lm);
         noseToChinDist = dist_js (nose_center lm) (chin_bottom lm);
         upperToLowerFace = noseToTopDist / noseToChinDist;
         faceRatioScore = calculateGoldenRatioScore faceHeightToWidth PHI;
         verticalRatioScore = calculateGoldenRatioScore upperToLowerFace PHI;
         golden_ratio = Math_round ((faceRatioScore + verticalRatioScore) / lit 2);
         upperThird = dist_js (forehead_top lm) (nose_base lm);
         midThird = dist_js (nose_base lm) (nose_tip lm);
         lowerThird = dist_js (nose_tip lm) (chin_bottom lm);
         avgThird = (upperThird + midThird + lowerThird) / lit 3;
         dev1 = Math_abs (upperThird - avgThird);
         dev2 = Math_abs (midThird - avgThird);
         dev3 = Math_abs (lowerThird - avgThird);
         maxDev = Math_max [dev1, dev2, dev3];
         facial_thirds = Math_round (Math_max [lit 0, lit 100 - (maxDev / avgThird) * lit 300]);
         fifth1 = dist_js (face_left lm) (eye_right_outer lm);
         fifth2 = dist_js (eye_right_outer lm) (eye_right_inner lm);
         fifth3 = dist_js (eye_right_inner lm) (eye_left_inner lm);
         fifth4 = dist_js (eye_left_inner lm) (eye_left_outer lm);
         fifth5 = dist_js (eye_left_outer lm) (face_right lm);
         avgFifth = (fifth1 + fifth2 + fifth3 + fifth4 + fifth5) / lit 5;
         devF1 = Math_abs (fifth1 - avgFifth);
         devF2 = Math_abs (fifth2 - avgFifth);
         devF3 = Math_abs (fifth3 - avgFifth);
         devF4 = Math_abs (fifth4 - avgFifth);
         devF5 = Math_abs (fifth5 - avgFifth);
         maxFifthDev = Math_max [devF1, devF2, devF3, devF4, devF5];
         facial_fifths = Math_round (Math_max [lit 0, lit 100 - (maxFifthDev / avgFifth) * lit 300]);
         leftTiltGood = (py (eye_left_outer lm) < py (eye_left_inner lm));
         rightTiltGood = (py (eye_right_outer lm) < py (eye_right_inner lm));
         eyeSpacingRatio = fifth3 / ((fifth2 + fifth4) / lit 2);
         spacingScore = norm_js eyeSpacingRatio (lit 0.8) (lit 1.2);
         eye_score = Math_round (lit 0.5 * spacingScore
                                 + lit 0.5 * (if leftTiltGood \<and> rightTiltGood then lit 100 else lit 70));
         nose_width = dist_js (nose_left lm) (nose_right lm);
         mouth_width = dist_js (mouth_left lm) (mouth_right lm);
         noseWidthRatio = nose_width / mouth_width;
         noseFaceRatio = nose_width / face_width;
         nose_score = Math_round (lit 0.5 * norm_js noseWidthRatio (lit 0.6) (lit 0.9)
                                  + lit 0.5 * norm_js noseFaceRatio (lit 0.20) (lit 0.30));
         overall = Math_round (
           lit 0.15 * jawline + lit 0.15 * cheekbones + lit 0.15 * skin_quality
           + lit 0.15 * masculinity + lit 0.10 * symmetry + lit 0.05 * golden_ratio
           + lit 0.05 * facial_thirds + lit 0.05 * facial_fifths + lit 0.10 * eye_score
           + lit 0.05 * nose_score);
         (photo_penalty, warnings) = photo_extended q;
         potential = Math_round (clamp (overall + photo_penalty) (lit 0) (lit 100))
     in \<lparr>overall = overall, potential = potential, masculinity = masculinity,
         skin_quality = skin_quality, jawline = jawline, cheekbones = cheekbones,
         warnings = warnings, symmetry = symmetry, golden_ratio = golden_ratio,
         facial_thirds = facial_thirds, facial_fifths = facial_fifths,
         eye_score = eye_score, nose_score = nose_score, landmarks = keypoints\<rparr>)"

text \<open>Lines 93 to 132: the first face's keypoints are read at twenty-four fixed indices.\<close>

definition analyzeFace_extended :: "point list list \<Rightarrow> QualityMetrics \<Rightarrow> thrown + AnalysisResult" where
  "analyzeFace_extended faces q =
    (if length faces = 0 then Inl (Error ''NO_FACE_DETECTED'')
     else
       let keypoints = faces ! 0 in
       andThen (getKeypoint keypoints 10) (\<lambda>forehead_top.
       andThen (getKeypoint keypoints 152) (\<lambda>chin_bottom.
       andThen (getKeypoint keypoints 234) (\<lambda>face_left.
       andThen (getKeypoint keypoints 454) (\<lambda>face_right.
       andThen (getKeypoint keypoints 123) (\<lambda>cheek_left.
       andThen (getKeypoint keypoints 352) (\<lambda>cheek_right.
       andThen (getKeypoint keypoints 172) (\<lambda>jaw_left.
       andThen (getKeypoint keypoints 397) (\<lambda>jaw_right.
       andThen (getKeypoint keypoints 14) (\<lambda>mouth_bottom.
       andThen (getKeypoint keypoints 33) (\<lambda>eye_right_outer.
       andThen (getKeypoint keypoints 133) (\<lambda>eye_right_inner.
       andThen (getKeypoint keypoints 362) (\<lambda>eye_left_inner.
       andThen (getKeypoint keypoints 263) (\<lambda>eye_left_outer.
       andThen (getKeypoint keypoints 159) (\<lambda>eye_right_top.
       andThen (getKeypoint keypoints 145) (\<lambda>eye_right_bottom.
       andThen (getKeypoint keypoints 386) (\<lambda>eye_left_top.
       andThen (getKeypoint keypoints 374) (\<lambda>eye_left_bottom.
       andThen (getKeypoint keypoints 168) (\<lambda>nose_center.
       andThen (getKeypoint keypoints 9) (\<lambda>nose_base.
       andThen (getKeypoint keypoints 0) (\<lambda>nose_tip.
       andThen (getKeypoint keypoints 61) (\<lambda>mouth_left.
       andThen (getKeypoint keypoints 291) (\<lambda>mouth_right.
       andThen (getKeypoint keypoints 102) (\<lambda>nose_left.
       andThen (getKeypoint keypoints 331) (\<lambda>nose_right.
       Inr (scores_extended
         \<lparr>forehead_top = forehead_top, chin_bottom = chin_bottom, face_left = face_left,
          face_right = face_right, cheek_left = cheek_left, cheek_right = cheek_right,
          jaw_left = jaw_left, jaw_right = jaw_right, mouth_bottom = mouth_bottom,
          eye_right_outer = eye_right_outer, eye_right_inner = eye_right_inner,
          eye_left_inner = eye_left_inner, eye_left_outer = eye_left_outer,
          eye_right_top = eye_right_top, eye_right_bottom = eye_right_bottom,
          eye_left_top = eye_left_top, eye_left_bottom = eye_left_bottom,
          nose_center = nose_center, nose_base = nose_base, nose_tip = nose_tip,
          mouth_left = mouth_left, mouth_right = mouth_right,
          nose_left = nose_left, nose_right = nose_right\<rparr>
         keypoints q))))))))))))))))))))))))))"

section \<open>Vocabulary of the statements\<close>

subsection \<open>Finite numbers and scores\<close>

text \<open>\<^verbatim>\<open>Number.isFinite\<close> and \<^verbatim>\<open>Number.isInteger\<close>; a point with two finite
  coordinates; a score as the interface documents it, an integer from 0 to 100; an integer
  that is at most 100; and a finite number from 0 to 100, not yet rounded.\<close>

fun isFinite :: "number \<Rightarrow> bool" where
  "isFinite (Fin a) = True"
| "isFinite a = False"

fun isInteger :: "number \<Rightarrow> bool" where
  "isInteger (Fin a) = (a = of_int \<lfloor>a\<rfloor>)"
| "isInteger a = False"

definition finite_point :: "point \<Rightarrow> bool" where
  "finite_point p \<longleftrightarrow> isFinite (px p) \<and> isFinite (py p)"

definition score_in_range :: "number \<Rightarrow> bool" where
  "score_in_range n \<longleftrightarrow> isInteger n \<and> Fin 0 \<le> n \<and> n \<le> Fin 100"

definition integer_at_most_100 :: "number \<Rightarrow> bool" where
  "integer_at_most_100 n \<longleftrightarrow> isInteger n \<and> n \<le> Fin 100"

definition in100 :: "number \<Rightarrow> bool" where
  "in100 n \<longleftrightarrow> (\<exists>v. n = Fin v \<and> 0 \<le> v \<and> v \<le> 100)"

subsection \<open>The landmarks at their indices\<close>

text \<open>The records that the two implementations build when every read is in range, and
  the five distances that they divide by and that the statements below require to be
  nonzero: face width, face height, jaw width, mouth width and the mean eye width.\<close>

definition named_points_basic :: "point list \<Rightarrow> Landmarks_basic" where
  "named_points_basic keypoints =
     \<lparr>forehead_top = keypoints ! 10, chin_bottom = keypoints ! 152, face_left = keypoints ! 234,
      face_right = keypoints ! 454, cheek_left = keypoints ! 123, cheek_right = keypoints ! 352,
      jaw_left = keypoints ! 172, jaw_right = keypoints ! 397, mouth_bottom = keypoints ! 14\<rparr>"

definition named_points :: "point list \<Rightarrow> Landmarks" where
  "named_points keypoints =
     \<lparr>forehead_top = keypoints ! 10, chin_bottom = keypoints ! 152, face_left = keypoints ! 234,
      face_right = keypoints ! 454, cheek_left = keypoints ! 123, cheek_right = keypoints ! 352,
      jaw_left = keypoints ! 172, jaw_right = keypoints ! 397, mouth_bottom = keypoints ! 14,
      eye_right_outer = keypoints ! 33, eye_right_inner = keypoints ! 133,
      eye_left_inner = keypoints ! 362, eye_left_outer = keypoints ! 263,
      eye_right_top = keypoints ! 159, eye_right_bottom = keypoints ! 145,
      eye_left_top = keypoints ! 386, eye_left_bottom = keypoints ! 374,
      nose_center = keypoints ! 168, nose_base = keypoints ! 9, nose_tip = keypoints ! 0,
      mouth_left = keypoints ! 61, mouth_right = keypoints ! 291,
      nose_left = keypoints ! 102, nose_right = keypoints ! 331\<rparr>"

definition denominators_nonzero :: "point list \<Rightarrow> bool" where
  "denominators_nonzero keypoints \<longleftrightarrow>
     dist_js (keypoints ! 234) (keypoints ! 454) \<noteq> 0 \<and>
     dist_js (keypoints ! 10) (keypoints ! 152) \<noteq> 0 \<and>
     dist_js (keypoints ! 172) (keypoints ! 397) \<noteq> 0 \<and>
     dist_js (keypoints ! 61) (keypoints ! 291) \<noteq> 0 \<and>
     (dist_js (keypoints ! 33) (keypoints ! 133) + dist_js (keypoints ! 362) (keypoints ! 263)) / lit 2 \<noteq> 0 \<and>
     dist_js (keypoints ! 168) (keypoints ! 152) \<noteq> 0 \<and>
     (dist_js (keypoints ! 10) (keypoints ! 9) + dist_js (keypoints ! 9) (keypoints ! 0)
        + dist_js (keypoints ! 0) (keypoints ! 152)) / lit 3 \<noteq> 0 \<and>
     (dist_js (keypoints ! 234) (keypoints ! 33) + dist_js (keypoints ! 33) (keypoints ! 133)
        + dist_js (keypoints ! 133) (keypoints ! 362) + dist_js (keypoints ! 362) (keypoints ! 263)
        + dist_js (keypoints ! 263) (keypoints ! 454)) / lit 5 \<noteq> 0"

text \<open>What the two results have in common: the four facets of the Basic implementation
  and the warnings.\<close>

definition shared_scores :: "'a AnalysisResult_basic_scheme \<Rightarrow> number \<times> number \<times> number \<times> number \<times> string list" where
  "shared_scores r = (jawline r, cheekbones r, skin_quality r, masculinity r, warnings r)"

subsection \<open>The specification's formulas\<close>



definition round_half_away_from_zero :: "real \<Rightarrow> int" where
  "round_half_away_from_zero v = (if v < 0 then - \<lfloor>- v + 1 / 2\<rfloor> else \<lfloor>v + 1 / 2\<rfloor>)"

definition spec_deviation_score :: "real list \<Rightarrow> real" where
  "spec_deviation_score segments =
    (let mean = sum_list segments / real (length segments);
         dev_max = foldr max (map (\<lambda>s. \<bar>s - mean\<bar>) segments) 0
     in max 0 (100 - 300 * dev_max / mean))"

subsection \<open>Sample inputs\<close>

text \<open>
  A mesh of 478 points is given by a table of the points that matter, index, x and y; the
  first entry for an index counts and every other point is the origin. \<open>face_frontal\<close> is
  a symmetric face seen from the front. The others change a few of its points: the left
  points of the three symmetry triads lie 25 and the right ones 7 from the nose bridge
  (\<open>face_lopsided\<close>); the jaw corners coincide and so do the cheek points
  (\<open>face_coincident\<close>); only the jaw corners coincide (\<open>face_narrow_jaw\<close>); the vertical
  thirds are 1000, 1000 and 1001 (\<open>face_long\<close>), 80, 80 and 80 (\<open>face_even_thirds\<close>), and
  10, 10 and 100 (\<open>face_long_chin\<close>). The two quality records are the ones of the
  specification's examples.
\<close>

fun place :: "(nat \<times> real \<times> real) list \<Rightarrow> nat \<Rightarrow> point" where
  "place [] i = \<lparr>px = Fin 0, py = Fin 0\<rparr>"
| "place ((j, a, b) # rest) i = (if i = j then \<lparr>px = Fin a, py = Fin b\<rparr> else place rest i)"

definition mesh :: "(nat \<times> real \<times> real) list \<Rightarrow> point list" where
  "mesh table = map (place table) [0..<478]"

definition frontal_table :: "(nat \<times> real \<times> real) list" where
  "frontal_table =
    [(10, 200, 40), (152, 200, 290), (234, 100, 150), (454, 300, 150),
     (123, 120, 210), (352, 280, 210), (172, 125, 250), (397, 275, 250), (14, 200, 260),
     (33, 130, 150), (133, 170, 150), (362, 230, 150), (263, 270, 150),
     (159, 150, 145), (145, 150, 155), (386, 250, 145), (374, 250, 155),
     (168, 200, 150), (9, 200, 120), (0, 200, 200), (61, 170, 240), (291, 230, 240),
     (102, 178, 195), (331, 222, 195)]"

definition face_frontal :: "point list" where
  "face_frontal = mesh frontal_table"

definition face_lopsided :: "point list" where
  "face_lopsided = mesh ([(263, 225, 150), (33, 193, 150), (123, 200, 175), (352, 200, 157),
     (172, 175, 150), (397, 207, 150)] @ frontal_table)"

definition face_coincident :: "point list" where
  "face_coincident = mesh ([(172, 200, 250), (397, 200, 250), (123, 200, 210), (352, 200, 210)]
     @ frontal_table)"

definition face_narrow_jaw :: "point list" where
  "face_narrow_jaw = mesh ([(172, 200, 250), (397, 200, 250)] @ frontal_table)"

definition face_long :: "point list" where
  "face_long = mesh ([(10, 200, 0), (9, 200, 1000), (0, 200, 2000), (152, 200, 3001)]
     @ frontal_table)"

definition face_even_thirds :: "point list" where
  "face_even_thirds = mesh ([(152, 200, 280)] @ frontal_table)"

definition face_long_chin :: "point list" where
  "face_long_chin = mesh ([(10, 200, 0), (9, 200, 10), (0, 200, 20), (152, 200, 120)]
     @ frontal_table)"

definition quality_good :: QualityMetrics where
  "quality_good = \<lparr>sharpness = Fin 200, brightness = Fin 120, contrast = Fin 50\<rparr>"




definition is_double :: "real \<Rightarrow> bool" where
  "is_double x \<longleftrightarrow> fl x = Fin x"

fun bounded :: "number \<Rightarrow> bool" where
  "bounded (Fin a) = (\<bar>a\<bar> \<le> 2 ^ 500)"
| "bounded a = False"

definition bounded_point :: "point \<Rightarrow> bool" where
  "bounded_point p \<longleftrightarrow> bounded (px p) \<and> bounded (py p)"

section \<open>Rounding\<close>

lemma rne_of_int [simp]: "rne (of_int k) = k"
  by (simp add: rne_def)

lemma rne_0 [simp]: "rne 0 = 0"
  using rne_of_int [of 0] by simp

lemma rne_err: "\<bar>of_int (rne m) - m\<bar> \<le> 1 / 2"
  unfolding rne_def Let_def by (auto; linarith)

lemma rne_eqI: "\<bar>m - of_int k\<bar> < 1 / 2 \<Longrightarrow> rne m = k"
  using rne_err [of m] by linarith

lemma rne_mono: assumes "a \<le> b" shows "rne a \<le> rne b"
proof -
  have f: "\<lfloor>a\<rfloor> \<le> \<lfloor>b\<rfloor>" using assms by (rule floor_mono)
  have la: "rne a \<le> \<lfloor>a\<rfloor> + 1" and lb: "\<lfloor>b\<rfloor> \<le> rne b"
    unfolding rne_def Let_def by auto
  show ?thesis
  proof (cases "\<lfloor>a\<rfloor> = \<lfloor>b\<rfloor>")
    case True
    then show ?thesis using assms unfolding rne_def Let_def by auto
  next
    case False
    then show ?thesis using f la lb by linarith
  qed
qed

lemma rne_minus: "rne (- m) = - rne m"
proof (cases "m = of_int \<lfloor>m\<rfloor>")
  case True
  then obtain k where "m = of_int k" ..
  then show ?thesis by (simp flip: of_int_minus)
next
  case False
  then have "\<lfloor>- m\<rfloor> = - \<lfloor>m\<rfloor> - 1"
    by (metis ceiling_altdef ceiling_def add_diff_cancel_right' minus_diff_eq uminus_add_conv_diff add.commute minus_minus)
  then show ?thesis unfolding rne_def Let_def by auto
qed


lemma two_powr_int: "2 powr (of_int k) = (2::real) powi k" "2 powr (of_int k + 1) = (2::real) powi (k + 1)"
  using powr_real_of_int' [of "2::real" k] powr_real_of_int' [of "2::real" "k + 1"] by simp_all

lemma binade: assumes "x \<noteq> 0"
  shows "2 powi \<lfloor>log 2 \<bar>x\<bar>\<rfloor> \<le> \<bar>x\<bar>" "\<bar>x\<bar> < 2 powi (\<lfloor>log 2 \<bar>x\<bar>\<rfloor> + 1)"
proof -
  have "0 < \<bar>x\<bar>" using assms by simp
  then have "2 powr (of_int \<lfloor>log 2 \<bar>x\<bar>\<rfloor>) \<le> \<bar>x\<bar> \<and> \<bar>x\<bar> < 2 powr (of_int (\<lfloor>log 2 \<bar>x\<bar>\<rfloor> + 1))"
    using floor_log_eq_powr_iff [of "\<bar>x\<bar>" 2 "\<lfloor>log 2 \<bar>x\<bar>\<rfloor>"] by simp
  then show "2 powi \<lfloor>log 2 \<bar>x\<bar>\<rfloor> \<le> \<bar>x\<bar>" "\<bar>x\<bar> < 2 powi (\<lfloor>log 2 \<bar>x\<bar>\<rfloor> + 1)"
    by (simp_all add: two_powr_int)
qed

lemma binade_unique: assumes "2 powi k \<le> \<bar>x\<bar>" "\<bar>x\<bar> < 2 powi (k + 1)"
  shows "\<lfloor>log 2 \<bar>x\<bar>\<rfloor> = k"
proof -
  have "0 < (2::real) powi k" by simp
  then have "0 < \<bar>x\<bar>" using assms(1) by linarith
  moreover have "2 powr (of_int k) \<le> \<bar>x\<bar> \<and> \<bar>x\<bar> < 2 powr (of_int (k + 1))"
    using assms by (simp add: two_powr_int)
  ultimately show ?thesis
    using floor_log_eq_powr_iff [of "\<bar>x\<bar>" 2 k] by simp
qed

lemma expo_ge: "- 1074 \<le> expo x"
  by (simp add: expo_def)

lemma expo_upper: assumes "x \<noteq> 0" shows "\<bar>x\<bar> < 2 powi (expo x + 53)"
proof -
  have "\<lfloor>log 2 \<bar>x\<bar>\<rfloor> + 1 \<le> expo x + 53" by (simp add: expo_def)
  then have "(2::real) powi (\<lfloor>log 2 \<bar>x\<bar>\<rfloor> + 1) \<le> 2 powi (expo x + 53)"
    by (intro power_int_increasing) simp_all
  with binade(2) [OF assms] show ?thesis by linarith
qed

lemma expo_normal: assumes "x \<noteq> 0" "expo x \<noteq> - 1074" shows "2 powi (expo x + 52) \<le> \<bar>x\<bar>"
proof -
  have "expo x + 52 = \<lfloor>log 2 \<bar>x\<bar>\<rfloor>" using assms(2) by (simp add: expo_def max_def split: if_splits)
  with binade(1) [OF assms(1)] show ?thesis by simp
qed

lemma expo_eqI:
  assumes "x \<noteq> 0" "- 1074 \<le> e" "\<bar>x\<bar> < 2 powi (e + 53)" "e = - 1074 \<or> 2 powi (e + 52) \<le> \<bar>x\<bar>"
  shows "expo x = e"
proof -
  let ?L = "\<lfloor>log 2 \<bar>x\<bar>\<rfloor>"
  have up: "?L < e + 53"
  proof (rule ccontr)
    assume "\<not> ?L < e + 53"
    then have "(2::real) powi (e + 53) \<le> 2 powi ?L" by (intro power_int_increasing) simp_all
    with binade(1) [OF assms(1)] assms(3) show False by linarith
  qed
  show ?thesis
  proof (cases "e = - 1074")
    case True
    with up show ?thesis unfolding expo_def by linarith
  next
    case False
    with assms(4) have lo: "2 powi (e + 52) \<le> \<bar>x\<bar>" by simp
    have "e + 52 \<le> ?L"
    proof (rule ccontr)
      assume "\<not> e + 52 \<le> ?L"
      then have "(2::real) powi (?L + 1) \<le> 2 powi (e + 52)" by (intro power_int_increasing) simp_all
      with binade(2) [OF assms(1)] lo show False by linarith
    qed
    with up assms(2) show ?thesis unfolding expo_def by linarith
  qed
qed

lemma expo_minus [simp]: "expo (- x) = expo x"
  by (simp add: expo_def)

lemma expo_mono: assumes "x \<noteq> 0" "\<bar>x\<bar> \<le> \<bar>y\<bar>" shows "expo x \<le> expo y"
proof -
  have "0 < \<bar>x\<bar>" using assms by simp
  then have "log 2 \<bar>x\<bar> \<le> log 2 \<bar>y\<bar>" using assms(2) by simp
  then have "\<lfloor>log 2 \<bar>x\<bar>\<rfloor> \<le> \<lfloor>log 2 \<bar>y\<bar>\<rfloor>" by (rule floor_mono)
  then show ?thesis by (simp add: expo_def)
qed


lemma nearest_0 [simp]: "nearest 0 = 0"
  by (simp add: nearest_def)

lemma nearest_minus: "nearest (- x) = - nearest x"
  by (simp add: nearest_def Let_def rne_minus)

lemma nearest_nonneg: assumes "0 \<le> x" shows "0 \<le> nearest x"
proof -
  have "0 \<le> x / 2 powi expo x" using assms by simp
  then have "rne 0 \<le> rne (x / 2 powi expo x)" by (rule rne_mono)
  then show ?thesis by (simp add: nearest_def Let_def)
qed

lemma nearest_exact:
  assumes x: "x = of_int k * 2 powi p" and k: "\<bar>k\<bar> < 2 ^ 53" and p: "- 1074 \<le> p"
  shows "nearest x = x"
proof (cases "x = 0")
  case True
  then show ?thesis by simp
next
  case False
  have "\<bar>x\<bar> = of_int \<bar>k\<bar> * 2 powi p" by (simp add: x abs_mult)
  also have "\<dots> < 2 ^ 53 * 2 powi p"
  proof -
    have "real_of_int \<bar>k\<bar> < real_of_int (2 ^ 53)" using k by (simp only: of_int_less_iff)
    then show ?thesis by simp
  qed
  also have "\<dots> = 2 powi (p + 53)" by (simp add: power_int_add)
  finally have ub: "\<bar>x\<bar> < 2 powi (p + 53)" .
  have le: "expo x \<le> p"
  proof (cases "expo x = - 1074")
    case True
    with p show ?thesis by simp
  next
    case exp: False
    have "\<not> p + 53 \<le> expo x + 52"
    proof
      assume "p + 53 \<le> expo x + 52"
      then have "(2::real) powi (p + 53) \<le> 2 powi (expo x + 52)"
        by (intro power_int_increasing) simp_all
      with expo_normal [OF False exp] ub show False by linarith
    qed
    then show ?thesis by simp
  qed
  define n where "n = nat (p - expo x)"
  define a :: real where "a = 2 powi expo x"
  have a: "0 < a" by (simp add: a_def)
  have pe: "p = expo x + int n" using le by (simp add: n_def)
  have b: "(2::real) powi p = a * 2 ^ n"
    unfolding a_def by (subst pe) (simp add: power_int_add)
  have xa: "x = of_int (k * 2 ^ n) * a" by (simp add: x b)
  then have "x / a = of_int (k * 2 ^ n)" using a by simp
  then have "rne (x / a) = k * 2 ^ n" by (simp only: rne_of_int)
  then have "nearest x = of_int (k * 2 ^ n) * a"
    by (simp add: nearest_def Let_def a_def)
  with xa show ?thesis by simp
qed

lemma nearest_mono_pos:
  assumes "0 < x" "x \<le> y" shows "nearest x \<le> nearest y"
proof -
  have x0: "x \<noteq> 0" and y0: "y \<noteq> 0" using assms by simp_all
  have le: "expo x \<le> expo y" using assms by (intro expo_mono) simp_all
  show ?thesis
  proof (cases "expo x = expo y")
    case True
    have "x / 2 powi expo y \<le> y / 2 powi expo y"
      using assms(2) by (simp add: divide_right_mono)
    then have "rne (x / 2 powi expo y) \<le> rne (y / 2 powi expo y)" by (rule rne_mono)
    then have "real_of_int (rne (x / 2 powi expo y)) \<le> real_of_int (rne (y / 2 powi expo y))"
      by simp
    then show ?thesis unfolding nearest_def Let_def True
      by (intro mult_right_mono) simp_all
  next
    case False
    with le have lt: "expo x + 53 \<le> expo y + 52" by simp
    have ny: "expo y \<noteq> - 1074" using expo_ge [of x] lt by linarith
    have "x / 2 powi expo x \<le> 2 ^ 53"
    proof -
      have "x < 2 powi (expo x + 53)" using expo_upper [OF x0] assms(1) by simp
      also have "\<dots> = 2 ^ 53 * 2 powi expo x" by (simp add: power_int_add)
      finally show ?thesis by (simp add: pos_divide_le_eq)
    qed
    then have "rne (x / 2 powi expo x) \<le> rne (of_int (2 ^ 53))"
      by (intro rne_mono) simp
    then have "real_of_int (rne (x / 2 powi expo x)) \<le> 2 ^ 53"
      unfolding rne_of_int by (metis of_int_le_iff of_int_numeral of_int_power)
    then have "nearest x \<le> 2 ^ 53 * 2 powi expo x"
      unfolding nearest_def Let_def by (intro mult_right_mono) simp_all
    also have "\<dots> = 2 powi (expo x + 53)" by (simp add: power_int_add)
    also have "\<dots> \<le> 2 powi (expo y + 52)" using lt by (intro power_int_increasing) simp_all
    also have "\<dots> = 2 ^ 52 * 2 powi expo y" by (simp add: power_int_add)
    also have "\<dots> \<le> nearest y"
    proof -
      have "2 powi (expo y + 52) \<le> y" using expo_normal [OF y0 ny] assms by simp
      then have "2 ^ 52 * 2 powi expo y \<le> y" by (simp add: power_int_add)
      then have "2 ^ 52 \<le> y / 2 powi expo y" by (simp add: pos_le_divide_eq)
      then have "rne (of_int (2 ^ 52)) \<le> rne (y / 2 powi expo y)"
        by (intro rne_mono) simp
      then have "2 ^ 52 \<le> real_of_int (rne (y / 2 powi expo y))"
        unfolding rne_of_int by (metis of_int_le_iff of_int_numeral of_int_power)
      then show ?thesis unfolding nearest_def Let_def by (intro mult_right_mono) simp_all
    qed
    finally show ?thesis .
  qed
qed

lemma nearest_mono: assumes "x \<le> y" shows "nearest x \<le> nearest y"
proof -
  consider "0 < x" | "x \<le> 0" "0 \<le> y" | "y < 0" using assms by linarith
  then show ?thesis
  proof cases
    case 1
    then show ?thesis using assms by (rule nearest_mono_pos)
  next
    case 2
    have "nearest x \<le> 0" using nearest_nonneg [of "- x"] 2(1) by (simp add: nearest_minus)
    with nearest_nonneg [OF 2(2)] show ?thesis by linarith
  next
    case 3
    have "nearest (- y) \<le> nearest (- x)" using 3 assms by (intro nearest_mono_pos) simp_all
    then show ?thesis by (simp add: nearest_minus)
  qed
qed

lemma nearest_err: "\<bar>nearest x - x\<bar> \<le> 2 powi (expo x) / 2"
proof -
  define e where "e = expo x"
  define m where "m = x / 2 powi e"
  have x: "x = m * 2 powi e" by (simp add: m_def)
  have "nearest x - x = (of_int (rne m) - m) * 2 powi e"
    unfolding nearest_def Let_def e_def [symmetric] m_def [symmetric] by (simp add: x algebra_simps)
  then have "\<bar>nearest x - x\<bar> = \<bar>of_int (rne m) - m\<bar> * 2 powi e"
    by (simp add: abs_mult)
  also have "\<dots> \<le> 1 / 2 * 2 powi e"
    by (intro mult_right_mono rne_err) simp
  finally show ?thesis by (simp add: e_def)
qed


lemma fl_0 [simp]: "fl 0 = Fin 0"
  by (simp add: fl_def)

lemma fl_not_NaN [simp]: "fl x \<noteq> NaN" "NaN \<noteq> fl x"
  by (simp_all add: fl_def Let_def)

lemma fl_Fin_iff: "fl x = Fin y \<longleftrightarrow> y = nearest x \<and> \<bar>nearest x\<bar> < 2 ^ 1024"
  by (auto simp add: fl_def Let_def)

lemma fl_exact:
  assumes "x = of_int k * 2 powi p" "\<bar>k\<bar> < 2 ^ 53" "- 1074 \<le> p" "\<bar>x\<bar> < 2 ^ 1024"
  shows "fl x = Fin x"
  using nearest_exact [OF assms(1-3)] assms(4) by (simp add: fl_Fin_iff)

lemma fl_of_int: assumes "\<bar>n\<bar> \<le> 2 ^ 53" shows "fl (of_int n) = Fin (of_int n)"
proof -
  have r: "\<bar>real_of_int n\<bar> \<le> 2 ^ 53"
    using assms by (metis of_int_abs of_int_le_iff of_int_numeral of_int_power)
  then have b: "\<bar>real_of_int n\<bar> < 2 ^ 1024" by simp
  show ?thesis
  proof (cases "\<bar>n\<bar> < 2 ^ 53")
    case True
    show ?thesis by (rule fl_exact [where k = n and p = 0]) (use True b in simp_all)
  next
    case False
    with assms have "\<bar>n\<bar> = 2 ^ 53" by simp
    then have "n = 2 ^ 52 * 2 \<or> n = - (2 ^ 52) * 2" by (simp add: abs_if split: if_splits)
    then show ?thesis
    proof
      assume n: "n = 2 ^ 52 * 2"
      show ?thesis by (rule fl_exact [where k = "2 ^ 52" and p = 1]) (use b in \<open>simp_all add: n\<close>)
    next
      assume n: "n = - (2 ^ 52) * 2"
      show ?thesis by (rule fl_exact [where k = "- (2 ^ 52)" and p = 1]) (use b in \<open>simp_all add: n\<close>)
    qed
  qed
qed

lemma rne_bound: assumes "\<bar>m\<bar> \<le> of_int b" shows "\<bar>rne m\<bar> \<le> b"
proof -
  have "rne m \<le> rne (of_int b)" using assms by (intro rne_mono) linarith
  moreover have "rne (of_int (- b)) \<le> rne m" using assms by (intro rne_mono) simp
  ultimately show ?thesis unfolding rne_of_int by linarith
qed

lemma nearest_representable:
  "\<exists>k p. nearest x = of_int k * 2 powi p \<and> \<bar>k\<bar> < 2 ^ 53 \<and> - 1074 \<le> p"
proof (cases "x = 0")
  case True
  have "nearest x = of_int 0 * 2 powi 0 \<and> \<bar>0::int\<bar> < 2 ^ 53 \<and> - 1074 \<le> (0::int)"
    using True by simp
  then show ?thesis by blast
next
  case False
  define e where "e = expo x"
  define n where "n = rne (x / 2 powi e)"
  have y: "nearest x = of_int n * 2 powi e" by (simp add: nearest_def Let_def e_def n_def)
  have "\<bar>x\<bar> < 2 powi (e + 53)" unfolding e_def by (rule expo_upper [OF False])
  also have "\<dots> = 2 ^ 53 * 2 powi e" by (simp add: power_int_add)
  finally have "\<bar>x\<bar> / 2 powi e < 2 ^ 53" by (simp add: pos_divide_less_eq)
  then have "\<bar>x / 2 powi e\<bar> \<le> real_of_int (2 ^ 53)" by simp
  then have n: "\<bar>n\<bar> \<le> 2 ^ 53" unfolding n_def by (rule rne_bound)
  show ?thesis
  proof (cases "\<bar>n\<bar> < 2 ^ 53")
    case True
    with y expo_ge [of x] show ?thesis unfolding e_def by blast
  next
    case False
    with n have "\<bar>n\<bar> = 2 ^ 53" by simp
    then have "n = 2 ^ 52 * 2 \<or> n = - (2 ^ 52) * 2" by (simp add: abs_if split: if_splits)
    then have "nearest x = of_int (2 ^ 52) * 2 powi (e + 1) \<or> nearest x = of_int (- (2 ^ 52)) * 2 powi (e + 1)"
      unfolding y by (auto simp add: power_int_add)
    moreover have "\<bar>2 ^ 52 :: int\<bar> < 2 ^ 53" "\<bar>- (2 ^ 52) :: int\<bar> < 2 ^ 53" by simp_all
    moreover have "- 1074 \<le> e + 1" using expo_ge [of x] by (simp add: e_def)
    ultimately show ?thesis by blast
  qed
qed

lemma nearest_idem [simp]: "nearest (nearest x) = nearest x"
proof -
  obtain k p where "nearest x = of_int k * 2 powi p" "\<bar>k\<bar> < 2 ^ 53" "- 1074 \<le> p"
    using nearest_representable by blast
  then show ?thesis by (rule nearest_exact)
qed

lemma fl_idem: "fl x = Fin y \<Longrightarrow> fl y = Fin y"
  by (simp add: fl_Fin_iff)

lemma nearest_pow2: assumes "- 1074 \<le> k" shows "nearest (2 powi k) = 2 powi k"
  by (rule nearest_exact [where k = 1 and p = k]) (use assms in simp_all)

lemma nearest_abs_le:
  assumes "\<bar>x\<bar> \<le> 2 powi k" "- 1074 \<le> k" shows "\<bar>nearest x\<bar> \<le> 2 powi k"
proof -
  have "nearest x \<le> nearest (2 powi k)" using assms(1) by (intro nearest_mono) linarith
  moreover have "nearest (- (2 powi k)) \<le> nearest x" using assms(1) by (intro nearest_mono) linarith
  ultimately show ?thesis by (simp add: nearest_minus nearest_pow2 [OF assms(2)])
qed

lemma expo_le: assumes "\<bar>x\<bar> \<le> 2 powi k" "- 1022 \<le> k" "x \<noteq> 0" shows "expo x \<le> k - 52"
proof (cases "expo x = - 1074")
  case True
  with assms(2) show ?thesis by simp
next
  case False
  have "\<not> k < expo x + 52"
  proof
    assume "k < expo x + 52"
    then have "(2::real) powi k < 2 powi (expo x + 52)" by (intro power_int_strict_increasing) simp_all
    with expo_normal [OF assms(3) False] assms(1) show False by linarith
  qed
  then show ?thesis by simp
qed

lemma nearest_err_abs:
  assumes "\<bar>x\<bar> \<le> 2 powi k" "- 1022 \<le> k" shows "\<bar>nearest x - x\<bar> \<le> 2 powi (k - 53)"
proof (cases "x = 0")
  case True
  then show ?thesis by simp
next
  case False
  have "expo x \<le> k - 52" using assms False by (rule expo_le)
  then have "(2::real) powi expo x \<le> 2 powi (k - 52)" by (intro power_int_increasing) simp_all
  also have "\<dots> = 2 * 2 powi (k - 53)"
    using power_int_add [of "2::real" "k - 53" 1] by (simp add: mult.commute)
  finally show ?thesis using nearest_err [of x] by linarith
qed

lemma nearest_err_rel:
  assumes "2 powi (- 1022) \<le> \<bar>x\<bar>" shows "\<bar>nearest x - x\<bar> \<le> \<bar>x\<bar> / 2 ^ 53"
proof -
  have "0 < (2::real) powi (- 1022)" by simp
  with assms have x0: "x \<noteq> 0" by auto
  define L where "L = \<lfloor>log 2 \<bar>x\<bar>\<rfloor>"
  have b: "2 powi L \<le> \<bar>x\<bar>" "\<bar>x\<bar> < 2 powi (L + 1)"
    using binade [OF x0] by (simp_all add: L_def)
  have L: "- 1022 \<le> L"
  proof (rule ccontr)
    assume "\<not> - 1022 \<le> L"
    then have "L + 1 \<le> - 1022" by simp
    then have "(2::real) powi (L + 1) \<le> 2 powi (- 1022)"
      by (rule power_int_increasing) simp
    with b(2) assms show False by linarith
  qed
  have "expo x = max (L - 52) (- 1074)" by (simp add: expo_def L_def)
  with L have "expo x + 52 = L" by linarith
  with b(1) have "2 powi (expo x + 52) \<le> \<bar>x\<bar>" by simp
  moreover have "(2::real) powi (expo x + 52) = 2 powi expo x / 2 * 2 ^ 53"
    by (simp add: power_int_add)
  ultimately have "2 powi expo x / 2 \<le> \<bar>x\<bar> / 2 ^ 53" by (simp add: pos_le_divide_eq)
  with nearest_err [of x] show ?thesis by linarith
qed

lemma power_int_neg_nat: "(2::real) powi (- int n) = 1 / 2 ^ n"
  by (simp add: power_int_minus_divide)

lemma div_pow2_le: "\<bar>a::real\<bar> / 2 ^ n \<le> \<bar>a\<bar>"
proof -
  have "(1::real) \<le> 2 ^ n" by simp
  then have "\<bar>a\<bar> * 1 \<le> \<bar>a\<bar> * 2 ^ n" by (intro mult_left_mono) simp_all
  then show ?thesis by (simp add: divide_le_eq)
qed

lemma pow2_shift: "(2::real) powi (- int n + int m) = 2 ^ m / 2 ^ n"
proof -
  have "(2::real) powi (- int n + int m) = 2 powi (- int n) * 2 powi (int m)"
    by (rule power_int_add) simp
  then show ?thesis by (simp add: power_int_neg_nat)
qed

lemma fl_dyadic:
  assumes "x * 2 ^ n = of_int k" "\<bar>k\<bar> < 2 ^ 53" "n \<le> 1074"
  shows "fl x = Fin x"
proof (rule fl_exact [where k = k and p = "- int n"])
  show x: "x = of_int k * 2 powi (- int n)"
    using assms(1) by (simp add: power_int_neg_nat field_simps)
  show "\<bar>k\<bar> < 2 ^ 53" by fact
  show "- 1074 \<le> - int n" using assms(3) by simp
  have "\<bar>real_of_int k\<bar> < 2 ^ 53"
    using assms(2) by (metis of_int_abs of_int_less_iff of_int_numeral of_int_power)
  moreover have "\<bar>x\<bar> = \<bar>real_of_int k\<bar> / 2 ^ n" unfolding x by (simp add: power_int_neg_nat abs_mult)
  moreover have "\<bar>real_of_int k\<bar> / 2 ^ n \<le> \<bar>real_of_int k\<bar>"
    by (rule div_pow2_le)
  ultimately show "\<bar>x\<bar> < 2 ^ 1024" by simp
qed

lemma fl_eval:
  assumes lo: "2 ^ 52 \<le> \<bar>x\<bar> * 2 ^ n" and hi: "\<bar>x\<bar> * 2 ^ n < 2 ^ 53" and n: "n \<le> 1074"
    and k: "\<bar>x * 2 ^ n - of_int k\<bar> < 1 / 2"
  shows "fl x = Fin (of_int k / 2 ^ n)"
proof -
  have x0: "x \<noteq> 0" using lo by auto
  have e: "expo x = - int n"
  proof (rule expo_eqI [OF x0])
    show "- 1074 \<le> - int n" using n by simp
    have "(2::real) powi (- int n + 53) = 2 ^ 53 / 2 ^ n"
      using pow2_shift [of n 53] by simp
    then show "\<bar>x\<bar> < 2 powi (- int n + 53)" using hi by (simp add: pos_less_divide_eq)
    have "(2::real) powi (- int n + 52) = 2 ^ 52 / 2 ^ n"
      using pow2_shift [of n 52] by simp
    then show "- int n = - 1074 \<or> 2 powi (- int n + 52) \<le> \<bar>x\<bar>"
      using lo by (simp add: pos_divide_le_eq)
  qed
  have "x / 2 powi (- int n) = x * 2 ^ n" by (simp add: power_int_neg_nat)
  moreover have "rne (x * 2 ^ n) = k" using k by (rule rne_eqI)
  ultimately have y: "nearest x = of_int k / 2 ^ n"
    by (simp add: nearest_def Let_def e power_int_neg_nat)
  have "\<bar>real_of_int k\<bar> \<le> \<bar>x * 2 ^ n\<bar> + 1 / 2" using k by linarith
  also have "\<dots> < 2 ^ 53 + 1" using hi by (simp add: abs_mult)
  finally have "\<bar>real_of_int k\<bar> < 2 ^ 53 + 1" .
  moreover have "\<bar>real_of_int k\<bar> / 2 ^ n \<le> \<bar>real_of_int k\<bar>" by (rule div_pow2_le)
  ultimately have "\<bar>real_of_int k / 2 ^ n\<bar> < 2 ^ 1024" by simp
  with y show ?thesis by (simp add: fl_Fin_iff)
qed

lemma fl_numeral [simp]:
  "numeral w \<le> (9007199254740992::real) \<Longrightarrow> fl (numeral w) = Fin (numeral w)"
  "numeral w \<le> (9007199254740992::real) \<Longrightarrow> fl (- numeral w) = Fin (- numeral w)"
  "fl 1 = Fin 1"
proof -
  have a: "fl (real_of_int 1) = Fin (real_of_int 1)" by (rule fl_of_int) simp
  then show "fl 1 = Fin 1" by simp
  assume "numeral w \<le> (9007199254740992::real)"
  then have "real_of_int (numeral w) \<le> real_of_int 9007199254740992" by simp
  then have w: "(numeral w :: int) \<le> 9007199254740992" by (simp only: of_int_le_iff)
  have "fl (real_of_int (numeral w)) = Fin (real_of_int (numeral w))"
    by (rule fl_of_int) (use w in simp)
  then show "fl (numeral w) = Fin (numeral w)" by simp
  have "fl (real_of_int (- numeral w)) = Fin (real_of_int (- numeral w))"
    by (rule fl_of_int) (use w in simp)
  then show "fl (- numeral w) = Fin (- numeral w)" by simp
qed

section \<open>Arithmetic on numbers\<close>

text \<open>The operations on finite values are the rounded real operations; NaN absorbs sums,
  products, \<open>clamp\<close> and \<open>norm\<close>. An integer literal denotes itself.\<close>

lemma zero_number_Fin [simp]: "(0::number) = Fin 0"
  by (simp add: zero_number_def)

lemma one_number_Fin [simp]: "(1::number) = Fin 1"
  by (simp add: one_number_def)

lemma lit_numeral [simp]:
  "numeral w \<le> (9007199254740992::real) \<Longrightarrow> lit (numeral w) = Fin (numeral w)"
  "lit 0 = Fin 0" "lit 1 = Fin 1"
  by (simp_all add: lit_def)

lemma minus_Fin [simp]: "Fin a - Fin b = fl (a - b)"
  by (simp add: minus_number_def)

lemma Math_max_Fin2 [simp]: "Math_max [Fin a, Fin b] = Fin (max a b)"
  by (simp add: Math_max_def max_def)

lemma Math_min_Fin2 [simp]: "Math_min [Fin a, Fin b] = Fin (min a b)"
  by (simp add: Math_min_def min_def)

lemma Math_max_Fin3 [simp]: "Math_max [Fin a, Fin b, Fin c] = Fin (max (max a b) c)"
  by (simp add: Math_max_def max_def)

lemma Math_max_Fin5 [simp]:
  "Math_max [Fin a, Fin b, Fin c, Fin d, Fin e] = Fin (max (max (max (max a b) c) d) e)"
  by (simp add: Math_max_def max_def)

lemma clamp_Fin [simp]: "clamp (Fin v) (Fin a) (Fin b) = Fin (max a (min v b))"
  by (simp add: clamp_def)

lemma plus_NaN [simp]: "a + NaN = NaN" "NaN + a = NaN"
  by (cases a; simp)+

lemma times_NaN [simp]: "a * NaN = NaN" "NaN * a = NaN"
  by (cases a; simp)+

lemma minus_NaN [simp]: "a - NaN = NaN" "NaN - a = NaN"
  by (simp_all add: minus_number_def)

lemma divide_NaN [simp]: "a / NaN = NaN" "NaN / a = NaN"
  by (cases a; simp)+

lemma clamp_NaN [simp]: "clamp NaN (Fin a) (Fin b) = NaN"
  by (simp add: clamp_def Math_max_def Math_min_def)

lemma norm_js_NaN [simp]: "norm_js NaN mn mx = NaN"
  by (simp add: norm_js_def)

lemma isFinite_iff: "isFinite n \<longleftrightarrow> (\<exists>a. n = Fin a)"
  by (cases n) simp_all

subsection \<open>The order of the numbers and the rounding\<close>

lemma le_number_refl [simp]: "a \<noteq> NaN \<Longrightarrow> a \<le> (a::number)"
  by (cases a) simp_all

lemma le_number_trans: "a \<le> b \<Longrightarrow> b \<le> c \<Longrightarrow> a \<le> (c::number)"
  by (cases a; cases b; cases c) simp_all

lemma le_number_not_NaN: "a \<le> (b::number) \<Longrightarrow> a \<noteq> NaN \<and> b \<noteq> NaN"
  by (cases a; cases b) simp_all

lemma fl_cases: "(\<exists>y. fl x = Fin y) \<or> (fl x = PosInf \<and> 0 < x) \<or> (fl x = NegInf \<and> x \<le> 0)"
  by (simp add: fl_def Let_def)

lemma fl_PosInf_iff: "fl x = PosInf \<longleftrightarrow> 2 ^ 1024 \<le> nearest x"
proof -
  have "0 < x" if "2 ^ 1024 \<le> nearest x"
  proof (rule ccontr)
    assume "\<not> 0 < x"
    then have "nearest x \<le> nearest 0" by (intro nearest_mono) simp
    with that show False by simp
  qed
  moreover have "2 ^ 1024 \<le> nearest x" if "2 ^ 1024 \<le> \<bar>nearest x\<bar>" "0 < x"
    using that nearest_nonneg [of x] by simp
  ultimately show ?thesis by (auto simp add: fl_def Let_def)
qed

lemma fl_NegInf_iff: "fl x = NegInf \<longleftrightarrow> nearest x \<le> - (2 ^ 1024)"
proof -
  have "\<not> 0 < x" if "nearest x \<le> - (2 ^ 1024)"
  proof
    assume "0 < x"
    then have "0 \<le> nearest x" by (intro nearest_nonneg) simp
    with that show False by simp
  qed
  moreover have "nearest x \<le> - (2 ^ 1024)" if "2 ^ 1024 \<le> \<bar>nearest x\<bar>" "\<not> 0 < x"
  proof -
    have "nearest x \<le> nearest 0" using that(2) by (intro nearest_mono) simp
    with that(1) show ?thesis by simp
  qed
  ultimately show ?thesis by (auto simp add: fl_def Let_def)
qed

lemma fl_mono: assumes "x \<le> y" shows "fl x \<le> fl y"
proof -
  have n: "nearest x \<le> nearest y" using assms by (rule nearest_mono)
  consider a where "fl y = Fin a" | "fl y = PosInf" | "fl y = NegInf"
    using fl_cases [of y] by blast
  then show ?thesis
  proof cases
    case 1
    then have y: "a = nearest y" "\<bar>nearest y\<bar> < 2 ^ 1024" by (simp_all add: fl_Fin_iff)
    consider b where "fl x = Fin b" | "fl x = PosInf" | "fl x = NegInf"
      using fl_cases [of x] by blast
    then show ?thesis
    proof cases
      case 1
      then have "b = nearest x" by (simp add: fl_Fin_iff)
      with n y \<open>fl y = Fin a\<close> 1 show ?thesis by simp
    next
      case 2
      then have "2 ^ 1024 \<le> nearest x" by (simp add: fl_PosInf_iff)
      with n y show ?thesis by simp
    next
      case 3
      with \<open>fl y = Fin a\<close> show ?thesis by simp
    qed
  next
    case 2
    then show ?thesis using fl_cases [of x] by auto
  next
    case 3
    then have "nearest y \<le> - (2 ^ 1024)" by (simp add: fl_NegInf_iff)
    with n have "nearest x \<le> - (2 ^ 1024)" by simp
    then have "fl x = NegInf" by (simp add: fl_NegInf_iff)
    with 3 show ?thesis by simp
  qed
qed

lemma fl_nonneg: "0 \<le> x \<Longrightarrow> Fin 0 \<le> fl x"
  using fl_mono [of 0 x] by simp

lemma fl_nonpos: "x \<le> 0 \<Longrightarrow> fl x \<le> Fin 0"
  using fl_mono [of x 0] by simp

lemma fl_le: "x \<le> c \<Longrightarrow> fl c = Fin c \<Longrightarrow> fl x \<le> Fin c"
  using fl_mono [of x c] by simp

lemma fl_ge: "c \<le> x \<Longrightarrow> fl c = Fin c \<Longrightarrow> Fin c \<le> fl x"
  using fl_mono [of c x] by simp

subsection \<open>The literals of the program\<close>

text \<open>The doubles that the decimal literals of the two source files denote.\<close>

lemma fl_0_7: "fl (7 / 10) = Fin (3152519739159347 / 4503599627370496)"
  using fl_eval [where x = "7 / 10" and n = 53 and k = "6305039478318694"] by simp

lemma fl_0_6: "fl (3 / 5) = Fin (5404319552844595 / 9007199254740992)"
  using fl_eval [where x = "3 / 5" and n = 53 and k = "5404319552844595"] by simp

lemma fl_0_85: "fl (17 / 20) = Fin (7656119366529843 / 9007199254740992)"
  using fl_eval [where x = "17 / 20" and n = 53 and k = "7656119366529843"] by simp

lemma fl_0_3: "fl (3 / 10) = Fin (5404319552844595 / 18014398509481984)"
  using fl_eval [where x = "3 / 10" and n = 54 and k = "5404319552844595"] by simp

lemma fl_0_08: "fl (2 / 25) = Fin (5764607523034235 / 72057594037927936)"
  using fl_eval [where x = "2 / 25" and n = 56 and k = "5764607523034235"] by simp

lemma fl_0_14: "fl (7 / 50) = Fin (1261007895663739 / 9007199254740992)"
  using fl_eval [where x = "7 / 50" and n = 55 and k = "5044031582654956"] by simp

lemma fl_0_95: "fl (19 / 20) = Fin (4278419646001971 / 4503599627370496)"
  using fl_eval [where x = "19 / 20" and n = 53 and k = "8556839292003942"] by simp

lemma fl_1_25: "fl (5 / 4) = Fin (5 / 4)"
  using fl_dyadic [where x = "5 / 4" and n = 2 and k = "5"] by simp

lemma fl_0_5: "fl (1 / 2) = Fin (1 / 2)"
  using fl_dyadic [where x = "1 / 2" and n = 1 and k = "1"] by simp

lemma fl_0_2: "fl (1 / 5) = Fin (3602879701896397 / 18014398509481984)"
  using fl_eval [where x = "1 / 5" and n = 55 and k = "7205759403792794"] by simp

lemma fl_0_4: "fl (2 / 5) = Fin (3602879701896397 / 9007199254740992)"
  using fl_eval [where x = "2 / 5" and n = 54 and k = "7205759403792794"] by simp

lemma fl_0_65: "fl (13 / 20) = Fin (5854679515581645 / 9007199254740992)"
  using fl_eval [where x = "13 / 20" and n = 53 and k = "5854679515581645"] by simp

lemma fl_0_9: "fl (9 / 10) = Fin (8106479329266893 / 9007199254740992)"
  using fl_eval [where x = "9 / 10" and n = 53 and k = "8106479329266893"] by simp

lemma fl_0_25: "fl (1 / 4) = Fin (1 / 4)"
  using fl_dyadic [where x = "1 / 4" and n = 2 and k = "1"] by simp

lemma fl_1_618: "fl (809 / 500) = Fin (7286824197085463 / 4503599627370496)"
  using fl_eval [where x = "809 / 500" and n = 52 and k = "7286824197085463"] by simp

lemma fl_0_8: "fl (4 / 5) = Fin (3602879701896397 / 4503599627370496)"
  using fl_eval [where x = "4 / 5" and n = 53 and k = "7205759403792794"] by simp

lemma fl_1_2: "fl (6 / 5) = Fin (5404319552844595 / 4503599627370496)"
  using fl_eval [where x = "6 / 5" and n = 52 and k = "5404319552844595"] by simp

lemma fl_0_15: "fl (3 / 20) = Fin (5404319552844595 / 36028797018963968)"
  using fl_eval [where x = "3 / 20" and n = 55 and k = "5404319552844595"] by simp

lemma fl_0_1: "fl (1 / 10) = Fin (3602879701896397 / 36028797018963968)"
  using fl_eval [where x = "1 / 10" and n = 56 and k = "7205759403792794"] by simp

lemma fl_0_05: "fl (1 / 20) = Fin (3602879701896397 / 72057594037927936)"
  using fl_eval [where x = "1 / 20" and n = 57 and k = "7205759403792794"] by simp

lemmas fl_literals = fl_0_7 fl_0_6 fl_0_85 fl_0_3 fl_0_08 fl_0_14 fl_0_95 fl_1_25 fl_0_5 fl_0_2 fl_0_4 fl_0_65 fl_0_9 fl_0_25 fl_1_618 fl_0_8 fl_1_2 fl_0_15 fl_0_1 fl_0_05

section \<open>Distances\<close>

text \<open>The distance of two points on a horizontal or a vertical line whose coordinates
  differ by an integer of at most \<open>2 ^ 26\<close> is computed without rounding. A distance is
  never negative.\<close>

lemma dist_js_axis:
  assumes "of_int \<lfloor>d\<rfloor> = d" "\<bar>d\<bar> \<le> 67108864"
  shows "Math_sqrt (Math_pow (fl d) 2 + Math_pow (fl 0) 2) = Fin \<bar>d\<bar>"
proof -
  define k where "k = \<lfloor>d\<rfloor>"
  have d: "d = of_int k" unfolding k_def using assms(1) by (rule sym)
  have "\<bar>real_of_int k\<bar> \<le> real_of_int 67108864" using assms(2) by (simp add: d)
  then have k: "\<bar>k\<bar> \<le> 67108864" by (simp only: of_int_abs [symmetric] of_int_le_iff)
  then have "\<bar>k\<bar> * \<bar>k\<bar> \<le> 67108864 * 67108864" by (intro mult_mono) simp_all
  then have kk: "\<bar>k * k\<bar> \<le> 2 ^ 53" by (simp add: abs_mult)
  define r :: real where "r = of_int k"
  have 1: "fl d = Fin r" unfolding d r_def by (rule fl_of_int) (use k in simp)
  have 2: "fl (r * r) = Fin (r * r)"
    using fl_of_int [OF kk] by (simp add: r_def)
  have 3: "\<not> r * r < 0" by simp
  have 4: "fl \<bar>r\<bar> = Fin \<bar>r\<bar>"
    using fl_of_int [of "\<bar>k\<bar>"] k by (simp add: r_def)
  have "Math_sqrt (Math_pow (Fin r) 2 + Math_pow (fl 0) 2) = Fin \<bar>r\<bar>"
    by (simp add: Math_pow_def 2 3 4)
  then show ?thesis unfolding 1 by (simp add: d r_def)
qed

lemma dist_js_same_py:
  assumes "of_int \<lfloor>a - c\<rfloor> = a - c" "\<bar>a - c\<bar> \<le> 67108864"
  shows "dist_js \<lparr>px = Fin a, py = Fin b\<rparr> \<lparr>px = Fin c, py = Fin b\<rparr> = Fin \<bar>a - c\<bar>"
  using dist_js_axis [OF assms] by (simp add: dist_js_def)

lemma dist_js_same_px:
  assumes "of_int \<lfloor>b - d\<rfloor> = b - d" "\<bar>b - d\<bar> \<le> 67108864"
  shows "dist_js \<lparr>px = Fin a, py = Fin b\<rparr> \<lparr>px = Fin a, py = Fin d\<rparr> = Fin \<bar>b - d\<bar>"
proof -
  have "Math_sqrt (Math_pow (fl 0) 2 + Math_pow (fl (b - d)) 2)
      = Math_sqrt (Math_pow (fl (b - d)) 2 + Math_pow (fl 0) 2)"
    by (cases "Math_pow (fl (b - d)) 2") (simp_all add: Math_pow_def add.commute)
  then show ?thesis using dist_js_axis [OF assms] by (simp add: dist_js_def)
qed

lemma Math_sqrt_cases:
  "(\<exists>d. Math_sqrt x = Fin d \<and> 0 \<le> d) \<or> Math_sqrt x = PosInf \<or> Math_sqrt x = NaN"
proof (cases x)
  case (Fin a)
  show ?thesis
  proof (cases "a < 0")
    case True
    with Fin show ?thesis by simp
  next
    case False
    then have "Fin 0 \<le> fl (sqrt a)" by (intro fl_nonneg) simp
    then show ?thesis using Fin False by (cases "fl (sqrt a)") simp_all
  qed
qed simp_all

lemma dist_js_cases:
  "(\<exists>d. dist_js p q = Fin d \<and> 0 \<le> d) \<or> dist_js p q = PosInf \<or> dist_js p q = NaN"
  unfolding dist_js_def by (rule Math_sqrt_cases)

lemma dist_js_nonneg: "dist_js p q = Fin d \<Longrightarrow> 0 \<le> d"
  using dist_js_cases [of p q] by auto

section \<open>Reading the landmarks\<close>

text \<open>With more than 454 keypoints every read succeeds and the analysis is the scoring of
  the named points; with fewer, the read at index 454 or an earlier one throws.\<close>

lemma andThen_Inr [simp]: "andThen (Inr v) f = f v"
  by (simp add: andThen_def)

lemma andThen_Inl [simp]: "andThen (Inl e) f = Inl e"
  by (simp add: andThen_def)

lemma getKeypoint_in_range: "idx < length keypoints \<Longrightarrow> getKeypoint keypoints idx = Inr (keypoints ! idx)"
  by (simp add: getKeypoint_def)

lemma getKeypoint_out_of_range: "length keypoints \<le> idx \<Longrightarrow> getKeypoint keypoints idx = Inl TypeError"
  by (simp add: getKeypoint_def)

lemma analyzeFace_basic_returns:
  assumes "454 < length keypoints"
  shows "analyzeFace_basic (keypoints # others) q = Inr (scores_basic (named_points_basic keypoints) q)"
  using assms by (simp add: analyzeFace_basic_def getKeypoint_in_range named_points_basic_def)

lemma analyzeFace_extended_returns:
  assumes "454 < length keypoints"
  shows "analyzeFace_extended (keypoints # others) q
    = Inr (scores_extended (named_points keypoints) keypoints q)"
proof -
  have "0 < length keypoints" using assms by linarith
  then show ?thesis
    using assms by (simp add: analyzeFace_extended_def getKeypoint_in_range named_points_def)
qed

lemma analyzeFace_basic_throws:
  assumes "length keypoints \<le> 454"
  shows "analyzeFace_basic (keypoints # others) q = Inl TypeError"
proof -
  have bad: "getKeypoint keypoints 454 = Inl TypeError"
    using assms by (rule getKeypoint_out_of_range)
  have each: "\<And>i. getKeypoint keypoints i = Inl TypeError \<or> getKeypoint keypoints i = Inr (keypoints ! i)"
    by (simp add: getKeypoint_def)
  show ?thesis
    using each [of 10] each [of 152] each [of 234] bad
    by (auto simp add: analyzeFace_basic_def)
qed

lemma analyzeFace_extended_throws:
  assumes "length keypoints \<le> 454"
  shows "analyzeFace_extended (keypoints # others) q = Inl TypeError"
proof -
  have bad: "getKeypoint keypoints 454 = Inl TypeError"
    using assms by (rule getKeypoint_out_of_range)
  have each: "\<And>i. getKeypoint keypoints i = Inl TypeError \<or> getKeypoint keypoints i = Inr (keypoints ! i)"
    by (simp add: getKeypoint_def)
  show ?thesis
    using each [of 10] each [of 152] each [of 234] bad
    by (auto simp add: analyzeFace_extended_def)
qed


section \<open>The fields of the result\<close>

text \<open>Each field of the two results as an expression in the named points and the quality
  metrics, read off the scoring functions.\<close>

lemma jawline_basic_eq:
  "jawline (scores_basic lm q) =
     Math_round (lit 0.7 * norm_js (dist_js (jaw_left lm) (jaw_right lm) / dist_js (face_left lm) (face_right lm)) (lit 0.60) (lit 0.85)
       + lit 0.3 * norm_js (dist_js (mouth_bottom lm) (chin_bottom lm) / dist_js (forehead_top lm) (chin_bottom lm)) (lit 0.08) (lit 0.14))"
  by (simp add: scores_basic_def Let_def split: prod.split)

lemma cheekbones_basic_eq:
  "cheekbones (scores_basic lm q) =
     Math_round (norm_js (dist_js (cheek_left lm) (cheek_right lm) / dist_js (jaw_left lm) (jaw_right lm)) (lit 0.95) (lit 1.25))"
  by (simp add: scores_basic_def Let_def split: prod.split)

lemma skin_quality_basic_eq:
  "skin_quality (scores_basic lm q) =
     Math_round (lit 0.5 * norm_js (sharpness q) (lit 50) (lit 250) + lit 0.3 * norm_js (contrast q) (lit 20) (lit 70)
       + lit 0.2 * clamp (lit 100 - Math_abs (norm_js (brightness q) (lit 80) (lit 170) - lit 50) * lit 2) (lit 0) (lit 100))"
  by (simp add: scores_basic_def Let_def split: prod.split)

lemma masculinity_basic_eq:
  "masculinity (scores_basic lm q) =
     Math_round (lit 0.6 * norm_js (dist_js (jaw_left lm) (jaw_right lm) / dist_js (face_left lm) (face_right lm)) (lit 0.60) (lit 0.85)
       + lit 0.4 * norm_js (dist_js (face_left lm) (face_right lm) / dist_js (forehead_top lm) (chin_bottom lm)) (lit 0.65) (lit 0.90))"
  by (simp add: scores_basic_def Let_def split: prod.split)

lemma overall_basic_eq:
  "overall (scores_basic lm q) =
     Math_round (lit 0.30 * jawline (scores_basic lm q) + lit 0.25 * cheekbones (scores_basic lm q)
       + lit 0.20 * skin_quality (scores_basic lm q) + lit 0.25 * masculinity (scores_basic lm q))"
  by (simp add: scores_basic_def Let_def split: prod.split)

lemma potential_basic_eq:
  "potential (scores_basic lm q) =
     Math_round (clamp (overall (scores_basic lm q) + fst (photo_basic q)) (lit 0) (lit 100))"
  by (simp add: scores_basic_def Let_def split: prod.split)

lemma warnings_basic_eq: "warnings (scores_basic lm q) = snd (photo_basic q)"
  by (simp add: scores_basic_def Let_def split: prod.split)

lemma jawline_extended_eq:
  "jawline (scores_extended lm kps q) =
     Math_round (lit 0.7 * norm_js (dist_js (jaw_left lm) (jaw_right lm) / dist_js (face_left lm) (face_right lm)) (lit 0.60) (lit 0.85)
       + lit 0.3 * norm_js (dist_js (mouth_bottom lm) (chin_bottom lm) / dist_js (forehead_top lm) (chin_bottom lm)) (lit 0.08) (lit 0.14))"
  by (simp add: scores_extended_def Let_def split: prod.split)

lemma cheekbones_extended_eq:
  "cheekbones (scores_extended lm kps q) =
     Math_round (norm_js (dist_js (cheek_left lm) (cheek_right lm) / dist_js (jaw_left lm) (jaw_right lm)) (lit 0.95) (lit 1.25))"
  by (simp add: scores_extended_def Let_def split: prod.split)

lemma skin_quality_extended_eq:
  "skin_quality (scores_extended lm kps q) =
     Math_round (lit 0.5 * norm_js (sharpness q) (lit 50) (lit 250) + lit 0.3 * norm_js (contrast q) (lit 20) (lit 70)
       + lit 0.2 * clamp (lit 100 - Math_abs (norm_js (brightness q) (lit 80) (lit 170) - lit 50) * lit 2) (lit 0) (lit 100))"
  by (simp add: scores_extended_def Let_def split: prod.split)

lemma masculinity_extended_eq:
  "masculinity (scores_extended lm kps q) =
     Math_round (lit 0.6 * norm_js (dist_js (jaw_left lm) (jaw_right lm) / dist_js (face_left lm) (face_right lm)) (lit 0.60) (lit 0.85)
       + lit 0.4 * norm_js (dist_js (face_left lm) (face_right lm) / dist_js (forehead_top lm) (chin_bottom lm)) (lit 0.65) (lit 0.90))"
  by (simp add: scores_extended_def Let_def split: prod.split)

lemma symmetry_extended_eq:
  "symmetry (scores_extended lm kps q) =
     Math_round ((calculateSymmetry (nose_center lm) (eye_left_outer lm) (eye_right_outer lm)
       + calculateSymmetry (nose_center lm) (cheek_left lm) (cheek_right lm)
       + calculateSymmetry (nose_center lm) (jaw_left lm) (jaw_right lm)) / lit 3)"
  by (simp add: scores_extended_def Let_def split: prod.split)

lemma golden_ratio_extended_eq:
  "golden_ratio (scores_extended lm kps q) =
     Math_round ((calculateGoldenRatioScore
          (dist_js (forehead_top lm) (chin_bottom lm) / dist_js (face_left lm) (face_right lm)) PHI
       + calculateGoldenRatioScore
          (dist_js (forehead_top lm) (nose_center lm) / dist_js (nose_center lm) (chin_bottom lm)) PHI) / lit 2)"
  by (simp add: scores_extended_def Let_def split: prod.split)

lemma facial_thirds_extended_eq:
  "facial_thirds (scores_extended lm kps q) =
    (let upperThird = dist_js (forehead_top lm) (nose_base lm);
         midThird = dist_js (nose_base lm) (nose_tip lm);
         lowerThird = dist_js (nose_tip lm) (chin_bottom lm);
         avgThird = (upperThird + midThird + lowerThird) / lit 3
     in Math_round (Math_max [lit 0, lit 100 -
          (Math_max [Math_abs (upperThird - avgThird), Math_abs (midThird - avgThird),
                     Math_abs (lowerThird - avgThird)] / avgThird) * lit 300]))"
  by (simp add: scores_extended_def Let_def split: prod.split)

lemma facial_fifths_extended_eq:
  "facial_fifths (scores_extended lm kps q) =
    (let fifth1 = dist_js (face_left lm) (eye_right_outer lm);
         fifth2 = dist_js (eye_right_outer lm) (eye_right_inner lm);
         fifth3 = dist_js (eye_right_inner lm) (eye_left_inner lm);
         fifth4 = dist_js (eye_left_inner lm) (eye_left_outer lm);
         fifth5 = dist_js (eye_left_outer lm) (face_right lm);
         avgFifth = (fifth1 + fifth2 + fifth3 + fifth4 + fifth5) / lit 5
     in Math_round (Math_max [lit 0, lit 100 -
          (Math_max [Math_abs (fifth1 - avgFifth), Math_abs (fifth2 - avgFifth),
                     Math_abs (fifth3 - avgFifth), Math_abs (fifth4 - avgFifth),
                     Math_abs (fifth5 - avgFifth)] / avgFifth) * lit 300]))"
  by (simp add: scores_extended_def Let_def split: prod.split)

lemma eye_score_extended_eq:
  "eye_score (scores_extended lm kps q) =
     Math_round (lit 0.5 * norm_js (dist_js (eye_right_inner lm) (eye_left_inner lm)
         / ((dist_js (eye_right_outer lm) (eye_right_inner lm)
             + dist_js (eye_left_inner lm) (eye_left_outer lm)) / lit 2)) (lit 0.8) (lit 1.2)
       + lit 0.5 * (if py (eye_left_outer lm) < py (eye_left_inner lm)
                   \<and> py (eye_right_outer lm) < py (eye_right_inner lm) then lit 100 else lit 70))"
  by (simp add: scores_extended_def Let_def split: prod.split)

lemma nose_score_extended_eq:
  "nose_score (scores_extended lm kps q) =
     Math_round (lit 0.5 * norm_js (dist_js (nose_left lm) (nose_right lm) / dist_js (mouth_left lm) (mouth_right lm)) (lit 0.6) (lit 0.9)
       + lit 0.5 * norm_js (dist_js (nose_left lm) (nose_right lm) / dist_js (face_left lm) (face_right lm)) (lit 0.20) (lit 0.30))"
  by (simp add: scores_extended_def Let_def split: prod.split)

lemma overall_extended_eq:
  "overall (scores_extended lm kps q) =
     Math_round (
       lit 0.15 * jawline (scores_extended lm kps q) + lit 0.15 * cheekbones (scores_extended lm kps q)
       + lit 0.15 * skin_quality (scores_extended lm kps q) + lit 0.15 * masculinity (scores_extended lm kps q)
       + lit 0.10 * symmetry (scores_extended lm kps q) + lit 0.05 * golden_ratio (scores_extended lm kps q)
       + lit 0.05 * facial_thirds (scores_extended lm kps q) + lit 0.05 * facial_fifths (scores_extended lm kps q)
       + lit 0.10 * eye_score (scores_extended lm kps q) + lit 0.05 * nose_score (scores_extended lm kps q))"
  by (simp add: scores_extended_def Let_def split: prod.split)

lemma potential_extended_eq:
  "potential (scores_extended lm kps q) =
     Math_round (clamp (overall (scores_extended lm kps q) + fst (photo_extended q)) (lit 0) (lit 100))"
  by (simp add: scores_extended_def Let_def split: prod.split)

lemma warnings_extended_eq:
  "warnings (scores_extended lm kps q) = snd (photo_extended q)"
  by (simp add: scores_extended_def Let_def split: prod.split)

lemma photo_basic_eq_extended: "photo_basic q = photo_extended q"
  by (simp add: photo_basic_def photo_extended_def)

lemma photo_extended_penalty:
  "\<exists>p::int. fst (photo_extended q) = Fin (of_int p) \<and> 0 \<le> p \<and> p \<le> 35"
proof -
  have "fst (photo_extended q) \<in> {Fin 0, Fin 10, Fin 15, Fin 20, Fin 25, Fin 35}"
    by (simp add: photo_extended_def Let_def)
  then consider "fst (photo_extended q) = Fin (of_int 0)" | "fst (photo_extended q) = Fin (of_int 10)"
    | "fst (photo_extended q) = Fin (of_int 15)" | "fst (photo_extended q) = Fin (of_int 20)"
    | "fst (photo_extended q) = Fin (of_int 25)" | "fst (photo_extended q) = Fin (of_int 35)"
    by auto
  then show ?thesis by cases (rule exI, (rule conjI, assumption, simp))+
qed

subsection \<open>The spans of the normalizer\<close>

text \<open>For each pair of bounds that \<open>norm\<close> is called with, the lower bound and the computed
  difference of the bounds, which is exact.\<close>

lemma fl_span_1: "fl (1 / 4) = Fin (1 / 4)"
  using fl_dyadic [where x = "1 / 4" and n = 2 and k = "1"] by simp

lemma fl_span_2: "fl (4323455642275677 / 72057594037927936) = Fin (4323455642275677 / 72057594037927936)"
  using fl_dyadic [where x = "4323455642275677 / 72057594037927936" and n = 56 and k = "4323455642275677"] by simp

lemma fl_span_3: "fl (1351079888211149 / 4503599627370496) = Fin (1351079888211149 / 4503599627370496)"
  using fl_dyadic [where x = "1351079888211149 / 4503599627370496" and n = 52 and k = "1351079888211149"] by simp

lemma fl_span_4: "fl (900719925474099 / 2251799813685248) = Fin (900719925474099 / 2251799813685248)"
  using fl_dyadic [where x = "900719925474099 / 2251799813685248" and n = 51 and k = "900719925474099"] by simp

lemma fl_span_5: "fl (900719925474099 / 9007199254740992) = Fin (900719925474099 / 9007199254740992)"
  using fl_dyadic [where x = "900719925474099 / 9007199254740992" and n = 53 and k = "900719925474099"] by simp

lemma norm_spans:
  "lit 0.85 - lit 0.60 = Fin (1 / 4)"
  "lit 0.14 - lit 0.08 = Fin (4323455642275677 / 72057594037927936)"
  "lit 1.25 - lit 0.95 = Fin (1351079888211149 / 4503599627370496)"
  "lit 0.90 - lit 0.65 = Fin (1 / 4)"
  "lit 1.2 - lit 0.8 = Fin (900719925474099 / 2251799813685248)"
  "lit 0.9 - lit 0.6 = Fin (1351079888211149 / 4503599627370496)"
  "lit 0.30 - lit 0.20 = Fin (900719925474099 / 9007199254740992)"
  "lit 250 - lit 50 = Fin (200)"
  "lit 70 - lit 20 = Fin (50)"
  "lit 170 - lit 80 = Fin (90)"
  by (simp_all add: lit_def fl_literals fl_span_1 fl_span_2 fl_span_3 fl_span_4 fl_span_5)

lemma norm_lows:
  "lit 0.60 = Fin (5404319552844595 / 9007199254740992)"
  "lit 0.08 = Fin (5764607523034235 / 72057594037927936)"
  "lit 0.95 = Fin (4278419646001971 / 4503599627370496)"
  "lit 0.65 = Fin (5854679515581645 / 9007199254740992)"
  "lit 0.8 = Fin (3602879701896397 / 4503599627370496)"
  "lit 0.6 = Fin (5404319552844595 / 9007199254740992)"
  "lit 0.20 = Fin (3602879701896397 / 18014398509481984)"
  "lit 50 = Fin (50)"
  "lit 20 = Fin (20)"
  "lit 80 = Fin (80)"
  by (simp_all add: lit_def fl_literals)

lemma norm_js_PosInf:
  assumes "mn = Fin l" "mx - mn = Fin d" "0 < d"
  shows "norm_js PosInf mn mx = Fin 100"
  unfolding norm_js_def assms(2) unfolding assms(1)
  using assms(3) by (simp add: minus_number_def clamp_def Math_max_def Math_min_def)

section \<open>The sample inputs\<close>

text \<open>Every mesh has 478 points; the distances of the face with coincident points.\<close>

lemma length_mesh [simp]: "length (mesh table) = 478"
  by (simp add: mesh_def)

lemma nth_mesh [simp]: "i < 478 \<Longrightarrow> mesh table ! i = place table i"
  by (simp add: mesh_def)

lemma extended_returns_lopsided:
  "analyzeFace_extended [face_lopsided] q
     = Inr (scores_extended (named_points face_lopsided) face_lopsided q)"
  by (rule analyzeFace_extended_returns) (simp add: face_lopsided_def)

lemma extended_returns_coincident:
  "analyzeFace_extended [face_coincident] q
     = Inr (scores_extended (named_points face_coincident) face_coincident q)"
  by (rule analyzeFace_extended_returns) (simp add: face_coincident_def)

lemma basic_returns_coincident:
  "analyzeFace_basic [face_coincident] q
     = Inr (scores_basic (named_points_basic face_coincident) q)"
  by (rule analyzeFace_basic_returns) (simp add: face_coincident_def)

lemma extended_returns_long:
  "analyzeFace_extended [face_long] q = Inr (scores_extended (named_points face_long) face_long q)"
  by (rule analyzeFace_extended_returns) (simp add: face_long_def)

lemma coincident_distances:
  "dist_js (face_coincident ! 123) (face_coincident ! 352) = 0"
  "dist_js (face_coincident ! 172) (face_coincident ! 397) = 0"
  by (simp_all add: face_coincident_def frontal_table_def dist_js_same_py)

lemma narrow_jaw_distances:
  "dist_js (face_narrow_jaw ! 172) (face_narrow_jaw ! 397) = 0"
  "0 < dist_js (face_narrow_jaw ! 123) (face_narrow_jaw ! 352)"
  by (simp_all add: face_narrow_jaw_def frontal_table_def dist_js_same_py)

lemma cheekbones_coincident:
  "cheekbones (projr (analyzeFace_extended [face_coincident] quality_good)) = NaN"
  unfolding extended_returns_coincident sum.sel cheekbones_extended_eq
  using coincident_distances
  by (simp add: named_points_def)

section \<open>Zero denominators\<close>

lemma cheek_ratio_both_zero:
  assumes "dist_js jl jr = 0" "dist_js cl cr = 0"
  shows "Math_round (norm_js (dist_js cl cr / dist_js jl jr) (lit 0.95) (lit 1.25)) = NaN"
  unfolding assms by simp

lemma cheek_ratio_jaw_zero:
  assumes "dist_js jl jr = 0" "0 < dist_js cl cr"
  shows "Math_round (norm_js (dist_js cl cr / dist_js jl jr) (lit 0.95) (lit 1.25)) = Fin 100"
proof -
  have q: "dist_js cl cr / dist_js jl jr = PosInf"
    using assms by (cases "dist_js cl cr") simp_all
  have n: "norm_js PosInf (lit 0.95) (lit 1.25) = Fin 100"
    by (rule norm_js_PosInf [OF norm_lows(3) norm_spans(3)]) simp
  show ?thesis unfolding q n by simp
qed

text \<open>
  C2, as amended. Neither implementation tests a distance before dividing by it, and
  neither ever fails for degenerate geometry: with at least 455 keypoints both return a
  result. With a jaw width of zero the cheek ratio is a division by zero: when the cheek
  width is zero too it is NaN, and then cheekbones, overall and potential are NaN; when
  the cheek width is positive it is Infinity, and cheekbones is 100.
\<close>

theorem zero_denominator_returns_result:
  assumes "454 < length keypoints"
  shows "\<exists>b r. analyzeFace_basic (keypoints # others) q = Inr b
    \<and> analyzeFace_extended (keypoints # others) q = Inr r
    \<and> (dist_js (keypoints ! 172) (keypoints ! 397) = 0
         \<and> dist_js (keypoints ! 123) (keypoints ! 352) = 0 \<longrightarrow>
           cheekbones b = NaN \<and> overall b = NaN \<and> potential b = NaN
         \<and> cheekbones r = NaN \<and> overall r = NaN \<and> potential r = NaN)
    \<and> (dist_js (keypoints ! 172) (keypoints ! 397) = 0
         \<and> 0 < dist_js (keypoints ! 123) (keypoints ! 352) \<longrightarrow>
           cheekbones b = Fin 100 \<and> cheekbones r = Fin 100)"
proof -
  define b where "b = scores_basic (named_points_basic keypoints) q"
  define r where "r = scores_extended (named_points keypoints) keypoints q"
  have ret: "analyzeFace_basic (keypoints # others) q = Inr b"
    "analyzeFace_extended (keypoints # others) q = Inr r"
    unfolding b_def r_def
    by (rule analyzeFace_basic_returns [OF assms] analyzeFace_extended_returns [OF assms])+
  have cb: "cheekbones b = Math_round (norm_js (dist_js (keypoints ! 123) (keypoints ! 352)
      / dist_js (keypoints ! 172) (keypoints ! 397)) (lit 0.95) (lit 1.25))"
    unfolding b_def cheekbones_basic_eq by (simp add: named_points_basic_def)
  have cr: "cheekbones r = Math_round (norm_js (dist_js (keypoints ! 123) (keypoints ! 352)
      / dist_js (keypoints ! 172) (keypoints ! 397)) (lit 0.95) (lit 1.25))"
    unfolding r_def cheekbones_extended_eq by (simp add: named_points_def)
  have nan: "cheekbones b = NaN \<and> overall b = NaN \<and> potential b = NaN
         \<and> cheekbones r = NaN \<and> overall r = NaN \<and> potential r = NaN"
    if z: "dist_js (keypoints ! 172) (keypoints ! 397) = 0"
      "dist_js (keypoints ! 123) (keypoints ! 352) = 0"
  proof -
    have 1: "cheekbones b = NaN" "cheekbones r = NaN"
      unfolding cb cr by (rule cheek_ratio_both_zero [OF z])+
    have 2: "overall b = NaN"
      unfolding b_def by (subst overall_basic_eq) (simp add: 1 [unfolded b_def])
    have 3: "overall r = NaN"
      unfolding r_def by (subst overall_extended_eq) (simp add: 1 [unfolded r_def])
    obtain p :: int where p: "fst (photo_extended q) = Fin (of_int p)"
      using photo_extended_penalty by blast
    have 4: "potential b = NaN"
      unfolding b_def potential_basic_eq photo_basic_eq_extended p
      by (simp add: 2 [unfolded b_def])
    have 5: "potential r = NaN"
      unfolding r_def potential_extended_eq p by (simp add: 3 [unfolded r_def])
    from 1 2 3 4 5 show ?thesis by blast
  qed
  have inf: "cheekbones b = Fin 100 \<and> cheekbones r = Fin 100"
    if z: "dist_js (keypoints ! 172) (keypoints ! 397) = 0"
      "0 < dist_js (keypoints ! 123) (keypoints ! 352)"
    unfolding cb cr using cheek_ratio_jaw_zero [OF z] by simp
  from ret nan inf show ?thesis by blast
qed

theorem zero_denominator_returns_result_witness:
  "454 < length face_coincident \<and> 454 < length face_narrow_jaw
   \<and> dist_js (face_coincident ! 172) (face_coincident ! 397) = 0
   \<and> dist_js (face_coincident ! 123) (face_coincident ! 352) = 0
   \<and> (\<exists>b r. analyzeFace_basic [face_coincident] quality_good = Inr b
        \<and> analyzeFace_extended [face_coincident] quality_good = Inr r
        \<and> cheekbones b = NaN \<and> overall b = NaN \<and> potential b = NaN
        \<and> cheekbones r = NaN \<and> overall r = NaN \<and> potential r = NaN)
   \<and> dist_js (face_narrow_jaw ! 172) (face_narrow_jaw ! 397) = 0
   \<and> 0 < dist_js (face_narrow_jaw ! 123) (face_narrow_jaw ! 352)
   \<and> (\<exists>b r. analyzeFace_basic [face_narrow_jaw] quality_good = Inr b
        \<and> analyzeFace_extended [face_narrow_jaw] quality_good = Inr r
        \<and> cheekbones b = Fin 100 \<and> cheekbones r = Fin 100)"
proof -
  have len: "454 < length face_coincident" "454 < length face_narrow_jaw"
    by (simp_all add: face_coincident_def face_narrow_jaw_def)
  from zero_denominator_returns_result [OF len(1), of "[]" quality_good]
    zero_denominator_returns_result [OF len(2), of "[]" quality_good]
    len coincident_distances narrow_jaw_distances
  show ?thesis by blast
qed

theorem DegenerateGeometryError_counterexample:
  "dist_js (face_coincident ! 172) (face_coincident ! 397) = 0
   \<and> \<not> isl (analyzeFace_basic [face_coincident] quality_good)
   \<and> cheekbones (projr (analyzeFace_basic [face_coincident] quality_good)) = NaN
   \<and> \<not> isl (analyzeFace_extended [face_coincident] quality_good)
   \<and> cheekbones (projr (analyzeFace_extended [face_coincident] quality_good)) = NaN"
proof -
  have "cheekbones (projr (analyzeFace_basic [face_coincident] quality_good)) = NaN"
    unfolding basic_returns_coincident sum.sel cheekbones_basic_eq
    using coincident_distances by (simp add: named_points_basic_def)
  then show ?thesis
    using coincident_distances(2) cheekbones_coincident
    by (simp add: basic_returns_coincident extended_returns_coincident)
qed

section \<open>Keypoint arrays that are too short\<close>

text \<open>
  C3, as amended. The length of the keypoint array is never compared with 468 or 478.
  When it is at most 454, so that a required index is past the end, both implementations
  throw the runtime's \<^verbatim>\<open>TypeError\<close> at the first such read and compute nothing; there
  is no \<^verbatim>\<open>ContractError\<close>. Every longer array is accepted.
\<close>

theorem short_keypoints_throw_TypeError:
  "analyzeFace_basic (keypoints # others) q =
     (if length keypoints \<le> 454 then Inl TypeError
      else Inr (scores_basic (named_points_basic keypoints) q))
   \<and> analyzeFace_extended (keypoints # others) q =
     (if length keypoints \<le> 454 then Inl TypeError
      else Inr (scores_extended (named_points keypoints) keypoints q))"
  by (simp add: analyzeFace_basic_throws analyzeFace_extended_throws
      analyzeFace_basic_returns analyzeFace_extended_returns)

theorem short_keypoints_throw_TypeError_witness:
  "length (take 400 face_frontal) \<le> 454
   \<and> analyzeFace_basic [take 400 face_frontal] quality_good = Inl TypeError
   \<and> analyzeFace_extended [take 400 face_frontal] quality_good = Inl TypeError
   \<and> \<not> length face_frontal \<le> 454
   \<and> \<not> isl (analyzeFace_basic [face_frontal] quality_good)
   \<and> \<not> isl (analyzeFace_extended [face_frontal] quality_good)"
proof -
  have a: "length (take 400 face_frontal) \<le> 454" "\<not> length face_frontal \<le> 454"
    by (simp_all add: face_frontal_def)
  show ?thesis
    using a short_keypoints_throw_TypeError [of "take 400 face_frontal" "[]" quality_good]
      short_keypoints_throw_TypeError [of face_frontal "[]" quality_good]
    by simp
qed

theorem ContractError_counterexample:
  "length (take 400 face_frontal) = 400
   \<and> analyzeFace_basic [take 400 face_frontal] quality_good = Inl TypeError
   \<and> analyzeFace_extended [take 400 face_frontal] quality_good = Inl TypeError
   \<and> error_name TypeError \<noteq> ''ContractError''"
proof -
  have a: "length (take 400 face_frontal) = 400" by (simp add: face_frontal_def)
  then have "length (take 400 face_frontal) \<le> 454" by simp
  then show ?thesis using a
    by (simp add: analyzeFace_basic_throws analyzeFace_extended_throws)
qed

section \<open>The Basic and the Extended implementation\<close>

text \<open>
  C10. On the same faces and the same quality metrics, the Basic and the Extended
  implementation throw the same error or both return, and then their jawline, cheekbones,
  skin quality and masculinity scores and their warning lists are equal; the photo
  penalty they add to their own overall score is the same.
\<close>

theorem basic_and_extended_agree:
  "map_sum id shared_scores (analyzeFace_basic faces q)
     = map_sum id shared_scores (analyzeFace_extended faces q)
   \<and> photo_basic q = photo_extended q"
proof (cases faces)
  case Nil
  then show ?thesis
    by (simp add: analyzeFace_basic_def analyzeFace_extended_def photo_basic_eq_extended)
next
  case (Cons keypoints others)
  show ?thesis
  proof (cases "length keypoints \<le> 454")
    case True
    then show ?thesis unfolding Cons
      by (simp add: analyzeFace_basic_throws analyzeFace_extended_throws photo_basic_eq_extended)
  next
    case False
    then have len: "454 < length keypoints" by simp
    show ?thesis
      unfolding Cons analyzeFace_basic_returns [OF len] analyzeFace_extended_returns [OF len]
      by (simp add: shared_scores_def jawline_basic_eq jawline_extended_eq
          cheekbones_basic_eq cheekbones_extended_eq skin_quality_basic_eq
          skin_quality_extended_eq masculinity_basic_eq masculinity_extended_eq
          warnings_basic_eq warnings_extended_eq photo_basic_eq_extended
          named_points_def named_points_basic_def)
  qed
qed

section \<open>Warnings, penalty and potential\<close>



lemma clamp_100_cases:
  "clamp PosInf (Fin 0) (Fin 100) = Fin 100" "clamp NegInf (Fin 0) (Fin 100) = Fin 0"
  by (simp_all add: clamp_def Math_max_def Math_min_def)

lemma Math_round_of_int [simp]: "Math_round (Fin (of_int n)) = Fin (of_int n)"
  by simp

lemma round_clamp_sum:
  fixes n p :: int
  assumes "0 \<le> p" "p \<le> 35"
  shows "Math_round (clamp (Fin (of_int n) + Fin (of_int p)) (lit 0) (lit 100))
    = Fin (max 0 (min (of_int n + of_int p) 100))"
proof -
  define s where "s = n + p"
  have sum: "Fin (of_int n) + Fin (of_int p) = fl (of_int s)" by (simp add: s_def)
  have goal: "max 0 (min (real_of_int n + real_of_int p) 100) = of_int (max 0 (min s 100))"
    by (simp add: s_def max_def min_def)
  consider "\<bar>s\<bar> \<le> 2 ^ 53" | "2 ^ 53 < s" | "s < - (2 ^ 53)" by linarith
  then show ?thesis
  proof cases
    case 1
    have "fl (of_int s) = Fin (of_int s)" using 1 by (rule fl_of_int)
    moreover have "max 0 (min (real_of_int s) 100) = of_int (max 0 (min s 100))"
      by (simp add: max_def min_def)
    ultimately show ?thesis unfolding sum goal by simp
  next
    case 2
    then have big: "(9007199254740992::real) \<le> of_int s"
    proof -
      have "real_of_int (2 ^ 53) \<le> real_of_int s" using 2 by (simp only: of_int_le_iff)
      then show ?thesis by simp
    qed
    then have "Fin 9007199254740992 \<le> fl (of_int s)" by (rule fl_ge) simp
    then have "clamp (fl (of_int s)) (Fin 0) (Fin 100) = Fin 100"
      by (cases "fl (of_int s)") (simp_all add: clamp_100_cases)
    moreover have "max 0 (min s 100) = 100" using 2 by simp
    ultimately show ?thesis unfolding sum goal by simp
  next
    case 3
    then have small: "of_int s \<le> (- 9007199254740992::real)"
    proof -
      have "real_of_int s \<le> real_of_int (- (2 ^ 53))" using 3 by (simp only: of_int_le_iff)
      then show ?thesis by simp
    qed
    then have "fl (of_int s) \<le> Fin (- 9007199254740992)" by (rule fl_le) simp
    then have "clamp (fl (of_int s)) (Fin 0) (Fin 100) = Fin 0"
      by (cases "fl (of_int s)") (simp_all add: clamp_100_cases)
    moreover have "max 0 (min s 100) = 0" using 3 by simp
    ultimately show ?thesis unfolding sum goal by simp
  qed
qed





section \<open>Monotone operations\<close>

text \<open>Rounding is monotone, so subtracting a finite number, dividing by a positive one,
  multiplying by a positive one and clamping all preserve the order of the numbers.\<close>

lemma fl_between [simp]: "NegInf \<le> fl z" "fl z \<le> PosInf"
  using fl_cases [of z] by auto

lemma minus_right_mono: assumes "a \<le> b" shows "a - Fin c \<le> b - Fin c"
proof (cases a)
  case a: (Fin x)
  show ?thesis
  proof (cases b)
    case (Fin y)
    with a assms show ?thesis by (simp add: fl_mono)
  next
    case PosInf
    with a show ?thesis by (simp add: minus_number_def)
  qed (use a assms in simp_all)
next
  case NegInf
  then show ?thesis using assms
    by (cases b) (auto simp add: minus_number_def)
qed (use assms in \<open>cases b; simp add: minus_number_def\<close>)+

lemma divide_right_mono_number: assumes "a \<le> b" "0 < d" shows "a / Fin d \<le> b / Fin d"
proof (cases a)
  case a: (Fin x)
  show ?thesis
  proof (cases b)
    case (Fin y)
    with a assms show ?thesis by (simp add: fl_mono divide_right_mono)
  next
    case PosInf
    with a assms(2) show ?thesis by simp
  qed (use a assms in simp_all)
next
  case NegInf
  then show ?thesis using assms
    by (cases b) auto
qed (use assms in \<open>cases b; simp\<close>)+

lemma times_right_mono_number: assumes "a \<le> b" "0 < c" shows "a * Fin c \<le> b * Fin c"
proof (cases a)
  case a: (Fin x)
  show ?thesis
  proof (cases b)
    case (Fin y)
    with a assms show ?thesis by (simp add: fl_mono mult_right_mono)
  next
    case PosInf
    with a assms(2) show ?thesis by simp
  qed (use a assms in simp_all)
next
  case NegInf
  then show ?thesis using assms
    by (cases b) auto
qed (use assms in \<open>cases b; simp\<close>)+


lemma clamp_in_range:
  assumes "a \<noteq> NaN" "l \<le> h"
  shows "\<exists>v. clamp a (Fin l) (Fin h) = Fin v \<and> l \<le> v \<and> v \<le> h"
  using assms by (cases a) (auto simp add: clamp_def Math_max_def Math_min_def)




section \<open>The normalizer\<close>

text \<open>The linear part of \<open>norm\<close>, before the clamp, for a lower bound \<open>lo\<close> and a computed
  span \<open>d\<close> of the bounds.\<close>

lemma norm_js_eq:
  assumes "mx - mn = Fin d"
  shows "norm_js x mn mx = clamp ((x - mn) / Fin d * Fin 100) (Fin 0) (Fin 100)"
  by (simp add: norm_js_def assms)

lemma linear_mono:
  assumes "a \<le> b" "0 < d"
  shows "(a - Fin lo) / Fin d * Fin 100 \<le> (b - Fin lo) / Fin d * Fin 100"
  by (intro times_right_mono_number divide_right_mono_number minus_right_mono assms) simp







lemma norm_js_in100:
  assumes "a \<noteq> NaN" "Fin hi - Fin lo = Fin d" "0 < d"
  shows "in100 (norm_js a (Fin lo) (Fin hi))"
proof -
  have "a \<le> a" using assms(1) by simp
  then have "(a - Fin lo) / Fin d * Fin 100 \<le> (a - Fin lo) / Fin d * Fin 100"
    using assms(3) by (rule linear_mono)
  then have "(a - Fin lo) / Fin d * Fin 100 \<noteq> NaN" by (auto dest: le_number_not_NaN)
  then show ?thesis
    unfolding norm_js_eq [OF assms(2)] in100_def by (rule clamp_in_range) simp
qed

section \<open>Rounding errors\<close>

text \<open>The result of an operation whose exact value is at most \<open>2 ^ k\<close> in magnitude is
  finite, at most \<open>2 ^ k\<close> in magnitude, and off by at most \<open>2 ^ k / 2 ^ 53\<close>.\<close>

lemma fl_err:
  assumes "\<bar>x\<bar> \<le> 2 ^ k" "k \<le> 1023"
  shows "\<exists>y. fl x = Fin y \<and> \<bar>y - x\<bar> \<le> 2 ^ k / 2 ^ 53 \<and> \<bar>y\<bar> \<le> 2 ^ k"
proof -
  have p: "(2::real) powi (int k) = 2 ^ k" by simp
  have x: "\<bar>x\<bar> \<le> 2 powi (int k)" using assms(1) by simp
  have "\<bar>nearest x - x\<bar> \<le> 2 powi (int k - 53)" using x by (rule nearest_err_abs) simp
  moreover have "(2::real) powi (int k - 53) = 2 ^ k / 2 ^ 53"
    using power_int_diff [of "2::real" "int k" 53] by simp
  moreover have b: "\<bar>nearest x\<bar> \<le> 2 ^ k" using nearest_abs_le [OF x] by simp
  moreover have "(2::real) ^ k \<le> 2 ^ 1023" using assms(2) by (intro power_increasing) simp_all
  then have "\<bar>nearest x\<bar> < 2 ^ 1024" using b by simp
  ultimately show ?thesis by (simp add: fl_Fin_iff)
qed





lemma fl_err_128:
  "\<bar>x\<bar> \<le> 128 \<Longrightarrow> \<exists>y. fl x = Fin y \<and> \<bar>y - x\<bar> \<le> 1 / 70368744177664 \<and> \<bar>y\<bar> \<le> 128"
  using fl_err [of x 7] by simp







section \<open>Distances of bounded points\<close>

text \<open>Between two points whose coordinates are at most \<open>2 ^ 500\<close> in magnitude nothing
  overflows: the distance is a finite number, not negative.\<close>

lemma bounded_pointE:
  assumes "bounded_point p"
  obtains a b where "p = \<lparr>px = Fin a, py = Fin b\<rparr>" "\<bar>a\<bar> \<le> 2 ^ 500" "\<bar>b\<bar> \<le> 2 ^ 500"
proof -
  obtain x y where p: "p = \<lparr>px = x, py = y\<rparr>" by (cases p) auto
  from assms obtain a b where "x = Fin a" "\<bar>a\<bar> \<le> 2 ^ 500" "y = Fin b" "\<bar>b\<bar> \<le> 2 ^ 500"
    unfolding bounded_point_def p by (cases x; cases y) auto
  with p that show ?thesis by blast
qed

lemma square_bounded:
  assumes "\<bar>a\<bar> \<le> 2 ^ 500" "\<bar>c\<bar> \<le> 2 ^ 500"
  shows "\<exists>s. Math_pow (Fin a - Fin c) 2 = Fin s \<and> 0 \<le> s \<and> s \<le> 2 ^ 1002"
proof -
  have "\<bar>a - c\<bar> \<le> 2 ^ 501" using assms by simp
  then obtain x where x: "fl (a - c) = Fin x" "\<bar>x\<bar> \<le> 2 ^ 501"
    using fl_err [of "a - c" 501] by auto
  have "\<bar>x\<bar> * \<bar>x\<bar> \<le> 2 ^ 501 * 2 ^ 501" using x(2) by (intro mult_mono) simp_all
  then have xx: "\<bar>x * x\<bar> \<le> 2 ^ 1002" by (simp add: abs_mult flip: power_add)
  then obtain s where s: "fl (x * x) = Fin s" "\<bar>s\<bar> \<le> 2 ^ 1002"
    using fl_err [of "x * x" 1002] by auto
  have "Fin 0 \<le> fl (x * x)" by (rule fl_nonneg) simp
  then have "0 \<le> s" unfolding s(1) by simp
  with s show ?thesis by (simp add: Math_pow_def x(1))
qed

lemma dist_js_bounded:
  assumes "bounded_point p" "bounded_point q"
  shows "\<exists>d. dist_js p q = Fin d \<and> 0 \<le> d \<and> d \<le> 2 ^ 502"
proof -
  from assms(1) obtain a b where p: "p = \<lparr>px = Fin a, py = Fin b\<rparr>"
    and ab: "\<bar>a\<bar> \<le> 2 ^ 500" "\<bar>b\<bar> \<le> 2 ^ 500" by (rule bounded_pointE)
  from assms(2) obtain c d where q: "q = \<lparr>px = Fin c, py = Fin d\<rparr>"
    and cd: "\<bar>c\<bar> \<le> 2 ^ 500" "\<bar>d\<bar> \<le> 2 ^ 500" by (rule bounded_pointE)
  obtain s where s: "Math_pow (Fin a - Fin c) 2 = Fin s" "0 \<le> s" "s \<le> 2 ^ 1002"
    using square_bounded [OF ab(1) cd(1)] by blast
  obtain t where t: "Math_pow (Fin b - Fin d) 2 = Fin t" "0 \<le> t" "t \<le> 2 ^ 1002"
    using square_bounded [OF ab(2) cd(2)] by blast
  have "\<bar>s + t\<bar> \<le> 2 ^ 1003" using s t by simp
  then obtain u where u: "fl (s + t) = Fin u" "\<bar>u\<bar> \<le> 2 ^ 1003"
    using fl_err [of "s + t" 1003] by auto
  have "Fin 0 \<le> fl (s + t)" using s t by (intro fl_nonneg) simp
  then have u0: "0 \<le> u" unfolding u(1) by simp
  have "sqrt u \<le> sqrt (2 ^ 1004)" using u(2) u0 by (intro real_sqrt_le_mono) simp
  also have "sqrt ((2::real) ^ 1004) = 2 ^ 502"
    using real_sqrt_abs [of "(2::real) ^ 502"] by (simp flip: power_mult)
  finally have "\<bar>sqrt u\<bar> \<le> 2 ^ 502" using u0 by simp
  then obtain r where r: "fl (sqrt u) = Fin r" "\<bar>r\<bar> \<le> 2 ^ 502"
    using fl_err [of "sqrt u" 502] by auto
  have "Fin 0 \<le> fl (sqrt u)" using u0 by (intro fl_nonneg) simp
  then have "0 \<le> r" unfolding r(1) by simp
  moreover have "dist_js p q = Math_sqrt (Math_pow (Fin a - Fin c) 2 + Math_pow (Fin b - Fin d) 2)"
    by (simp add: p q dist_js_def del: minus_Fin)
  then have "dist_js p q = Fin r"
    unfolding s(1) t(1) using u0 by (simp add: u(1) r(1))
  ultimately show ?thesis using r(2) by simp
qed

section \<open>Intervals with double endpoints\<close>

text \<open>An operation whose exact value lies between two doubles returns a finite number
  between them.\<close>

lemma is_double_numeral [simp]:
  "numeral w \<le> (9007199254740992::real) \<Longrightarrow> is_double (numeral w)"
  "numeral w \<le> (9007199254740992::real) \<Longrightarrow> is_double (- numeral w)"
  "is_double 0" "is_double 1"
  by (simp_all add: is_double_def)

lemma is_double_fl: "fl x = Fin y \<Longrightarrow> is_double y"
  unfolding is_double_def by (rule fl_idem)

lemma fl_in:
  assumes "lo \<le> x" "x \<le> hi" "is_double lo" "is_double hi"
  shows "\<exists>y. fl x = Fin y \<and> lo \<le> y \<and> y \<le> hi"
proof -
  have "fl lo \<le> fl x" "fl x \<le> fl hi" using assms(1,2) by (simp_all add: fl_mono)
  then have "Fin lo \<le> fl x" "fl x \<le> Fin hi"
    using assms(3,4) by (simp_all add: is_double_def)
  then show ?thesis by (cases "fl x") simp_all
qed

lemma minus_left_antimono: assumes "a \<le> b" shows "Fin c - b \<le> Fin c - a"
proof (cases a)
  case a: (Fin x)
  show ?thesis
  proof (cases b)
    case (Fin y)
    with a assms show ?thesis by (simp add: fl_mono)
  next
    case PosInf
    with a show ?thesis by (simp add: minus_number_def)
  qed (use a assms in simp_all)
next
  case NegInf
  then show ?thesis using assms by (cases b) (auto simp add: minus_number_def)
qed (use assms in \<open>cases b; simp add: minus_number_def\<close>)+

lemma Math_round_mono: "a \<le> b \<Longrightarrow> Math_round a \<le> Math_round b"
  by (cases a; cases b) (simp_all add: floor_mono)

lemma score_in_range_round:
  assumes "- (1 / 2) \<le> s" "s < 201 / 2"
  shows "score_in_range (Math_round (Fin s))"
proof -
  have "0 \<le> \<lfloor>s + 1 / 2\<rfloor>" using assms(1) by simp
  moreover have "\<lfloor>s + 1 / 2\<rfloor> \<le> 100" using assms(2) by (simp add: floor_le_iff)
  ultimately have "0 \<le> real_of_int \<lfloor>s + 1 / 2\<rfloor>" "real_of_int \<lfloor>s + 1 / 2\<rfloor> \<le> 100"
    by simp_all
  then show ?thesis by (simp add: score_in_range_def)
qed

lemma score_in_range_round_in100: "in100 a \<Longrightarrow> score_in_range (Math_round a)"
  unfolding in100_def by (auto intro: score_in_range_round)

lemma score_in_rangeD:
  assumes "score_in_range a"
  obtains n :: int where "a = Fin (of_int n)" "0 \<le> n" "n \<le> 100"
proof -
  from assms obtain v where v: "a = Fin v" "v = of_int \<lfloor>v\<rfloor>" "0 \<le> v" "v \<le> 100"
    unfolding score_in_range_def by (cases a) auto
  then have "0 \<le> \<lfloor>v\<rfloor>" "\<lfloor>v\<rfloor> \<le> 100" by (simp_all add: floor_le_iff)
  with v that show ?thesis by metis
qed

section \<open>Weighted sums\<close>

text \<open>A product of a weight in 0..1 and a value in 0..100, and a sum of at most 128 in
  magnitude, are off by at most \<open>1 / 2 ^ 46\<close>.\<close>

lemma weighted_term:
  assumes "lit w = Fin c" "0 \<le> c" "c \<le> 1" "\<bar>x\<bar> \<le> 100"
  shows "\<exists>p. lit w * Fin x = Fin p \<and> \<bar>p - c * x\<bar> \<le> 1 / 70368744177664"
proof -
  have "\<bar>c\<bar> * \<bar>x\<bar> \<le> 1 * 100" using assms(2-4) by (intro mult_mono) simp_all
  then have "\<bar>c * x\<bar> \<le> 128" by (simp add: abs_mult)
  then show ?thesis using fl_err_128 [of "c * x"] by (auto simp add: assms(1))
qed

lemma sum_term:
  assumes "\<bar>a + b\<bar> \<le> 128"
  shows "\<exists>s. Fin a + Fin b = Fin s \<and> \<bar>s - (a + b)\<bar> \<le> 1 / 70368744177664"
  using fl_err_128 [OF assms] by auto

lemma weighted2_range:
  assumes a: "in100 a" and b: "in100 b"
    and w: "lit w1 = Fin c1" "lit w2 = Fin c2" "0 \<le> c1" "0 \<le> c2" "c1 + c2 \<le> 1 + 1 / 2 ^ 40"
  shows "score_in_range (Math_round (lit w1 * a + lit w2 * b))"
proof -
  from a obtain x where x: "a = Fin x" "0 \<le> x" "x \<le> 100" unfolding in100_def by blast
  from b obtain y where y: "b = Fin y" "0 \<le> y" "y \<le> 100" unfolding in100_def by blast
  have "c1 + c2 \<le> 9 / 8" using w(5) by simp
  then have c: "c1 \<le> 9 / 8" "c2 \<le> 9 / 8" using w(3,4) by simp_all
  have cx: "0 \<le> c1 * x" "c1 * x \<le> c1 * 100" using w(3) x by (simp_all add: mult_left_mono)
  have cy: "0 \<le> c2 * y" "c2 * y \<le> c2 * 100" using w(4) y by (simp_all add: mult_left_mono)
  have "\<bar>c1 * x\<bar> \<le> 128" using cx c by linarith
  then obtain p where p: "fl (c1 * x) = Fin p" "\<bar>p - c1 * x\<bar> \<le> 1 / 70368744177664"
    using fl_err_128 by blast
  have "\<bar>c2 * y\<bar> \<le> 128" using cy c by linarith
  then obtain q where q: "fl (c2 * y) = Fin q" "\<bar>q - c2 * y\<bar> \<le> 1 / 70368744177664"
    using fl_err_128 by blast
  have tot: "c1 * 100 + c2 * 100 \<le> 100 + 1 / 2 ^ 33"
  proof -
    have "c1 * 100 + c2 * 100 = (c1 + c2) * 100" by (simp add: algebra_simps)
    also have "\<dots> \<le> (1 + 1 / 2 ^ 40) * 100" using w(5) by (intro mult_right_mono) simp_all
    also have "\<dots> \<le> 100 + 1 / 2 ^ 33" by simp
    finally show ?thesis .
  qed
  then have tot': "c1 * 100 + c2 * 100 \<le> 100 + 1 / 8589934592" by simp
  have "\<bar>p + q\<bar> \<le> 128" using p(2) q(2) cx cy tot' by linarith
  then obtain s where s: "fl (p + q) = Fin s" "\<bar>s - (p + q)\<bar> \<le> 1 / 70368744177664"
    using fl_err_128 by blast
  have "- (1 / 2) \<le> s" "s < 201 / 2" using p(2) q(2) s(2) cx cy tot' by linarith+
  then have "score_in_range (Math_round (Fin s))" by (rule score_in_range_round)
  then show ?thesis by (simp add: x(1) y(1) w(1,2) p(1) q(1) s(1))
qed

section \<open>Score ranges\<close>

subsection \<open>Normalized ratios\<close>

lemma norm_js_in100_gen:
  assumes "a \<noteq> NaN" "mn = Fin lo" "mx - mn = Fin d" "0 < d"
  shows "in100 (norm_js a mn mx)"
proof -
  have "a \<le> a" using assms(1) by simp
  then have "(a - Fin lo) / Fin d * Fin 100 \<le> (a - Fin lo) / Fin d * Fin 100"
    using assms(4) by (rule linear_mono)
  then have "(a - Fin lo) / Fin d * Fin 100 \<noteq> NaN" by (auto dest: le_number_not_NaN)
  moreover have e: "norm_js a mn mx = clamp ((a - Fin lo) / Fin d * Fin 100) (Fin 0) (Fin 100)"
    unfolding norm_js_eq [OF assms(3)] by (simp only: assms(2))
  ultimately show ?thesis
    unfolding e in100_def by (intro clamp_in_range) simp_all
qed

lemma norm_js_in100_lit:
  assumes "x \<noteq> NaN"
  shows "in100 (norm_js x (lit 0.60) (lit 0.85))"
    "in100 (norm_js x (lit 0.08) (lit 0.14))"
    "in100 (norm_js x (lit 0.95) (lit 1.25))"
    "in100 (norm_js x (lit 0.65) (lit 0.90))"
    "in100 (norm_js x (lit 0.8) (lit 1.2))"
    "in100 (norm_js x (lit 0.6) (lit 0.9))"
    "in100 (norm_js x (lit 0.20) (lit 0.30))"
    "in100 (norm_js x (lit 50) (lit 250))"
    "in100 (norm_js x (lit 20) (lit 70))"
    "in100 (norm_js x (lit 80) (lit 170))"
  by (rule norm_js_in100_gen [OF assms norm_lows(1) norm_spans(1)], simp,
      rule norm_js_in100_gen [OF assms norm_lows(2) norm_spans(2)], simp,
      rule norm_js_in100_gen [OF assms norm_lows(3) norm_spans(3)], simp,
      rule norm_js_in100_gen [OF assms norm_lows(4) norm_spans(4)], simp,
      rule norm_js_in100_gen [OF assms norm_lows(5) norm_spans(5)], simp,
      rule norm_js_in100_gen [OF assms norm_lows(6) norm_spans(6)], simp,
      rule norm_js_in100_gen [OF assms norm_lows(7) norm_spans(7)], simp,
      rule norm_js_in100_gen [OF assms norm_lows(8) norm_spans(8)], simp,
      rule norm_js_in100_gen [OF assms norm_lows(9) norm_spans(9)], simp,
      rule norm_js_in100_gen [OF assms norm_lows(10) norm_spans(10)], simp)

lemma ratio_not_NaN:
  assumes "bounded_point a" "bounded_point b" "bounded_point c" "bounded_point d"
    and "dist_js c d \<noteq> 0"
  shows "Fin 0 \<le> dist_js a b / dist_js c d"
proof -
  obtain n where n: "dist_js a b = Fin n" "0 \<le> n" using dist_js_bounded [OF assms(1,2)] by blast
  obtain m where m: "dist_js c d = Fin m" "0 \<le> m" using dist_js_bounded [OF assms(3,4)] by blast
  with assms(5) have "0 < m" by auto
  then have "Fin 0 \<le> fl (n / m)" using n(2) by (intro fl_nonneg) simp
  with n m \<open>0 < m\<close> show ?thesis by simp
qed

lemma ratio_not_NaN': 
  assumes "bounded_point a" "bounded_point b" "bounded_point c" "bounded_point d"
    and "dist_js c d \<noteq> 0"
  shows "dist_js a b / dist_js c d \<noteq> NaN"
  using ratio_not_NaN [OF assms] by (auto dest: le_number_not_NaN)

subsection \<open>The weights\<close>

lemma lit_values:
  "lit 0.7 = Fin (3152519739159347 / 4503599627370496)"
  "lit 0.3 = Fin (5404319552844595 / 18014398509481984)"
  "lit 0.5 = Fin (1 / 2)"
  "lit 0.2 = Fin (3602879701896397 / 18014398509481984)"
  "lit 0.6 = Fin (5404319552844595 / 9007199254740992)"
  "lit 0.4 = Fin (3602879701896397 / 9007199254740992)"
  "lit 0.30 = Fin (5404319552844595 / 18014398509481984)"
  "lit 0.25 = Fin (1 / 4)"
  "lit 0.20 = Fin (3602879701896397 / 18014398509481984)"
  "lit 0.15 = Fin (5404319552844595 / 36028797018963968)"
  "lit 0.10 = Fin (3602879701896397 / 36028797018963968)"
  "lit 0.05 = Fin (3602879701896397 / 72057594037927936)"
  "lit 1.618 = Fin (7286824197085463 / 4503599627370496)"
  by (simp_all add: lit_def fl_literals)

lemma weighted3_range:
  assumes a: "in100 a" and b: "in100 b" and c: "in100 c"
    and w: "lit w1 = Fin c1" "lit w2 = Fin c2" "lit w3 = Fin c3" "0 \<le> c1" "0 \<le> c2" "0 \<le> c3"
      "c1 + c2 + c3 \<le> 1 + 1 / 2 ^ 40"
  shows "score_in_range (Math_round (lit w1 * a + lit w2 * b + lit w3 * c))"
proof -
  from a obtain x where x: "a = Fin x" "0 \<le> x" "x \<le> 100" unfolding in100_def by blast
  from b obtain y where y: "b = Fin y" "0 \<le> y" "y \<le> 100" unfolding in100_def by blast
  from c obtain z where z: "c = Fin z" "0 \<le> z" "z \<le> 100" unfolding in100_def by blast
  have "c1 + c2 + c3 \<le> 9 / 8" using w(7) by simp
  then have le: "c1 \<le> 9 / 8" "c2 \<le> 9 / 8" "c3 \<le> 9 / 8" using w(4-6) by simp_all
  have cx: "0 \<le> c1 * x" "c1 * x \<le> c1 * 100" using w(4) x by (simp_all add: mult_left_mono)
  have cy: "0 \<le> c2 * y" "c2 * y \<le> c2 * 100" using w(5) y by (simp_all add: mult_left_mono)
  have cz: "0 \<le> c3 * z" "c3 * z \<le> c3 * 100" using w(6) z by (simp_all add: mult_left_mono)
  have "\<bar>c1 * x\<bar> \<le> 128" using cx le by linarith
  then obtain p where p: "fl (c1 * x) = Fin p" "\<bar>p - c1 * x\<bar> \<le> 1 / 70368744177664"
    using fl_err_128 by blast
  have "\<bar>c2 * y\<bar> \<le> 128" using cy le by linarith
  then obtain q where q: "fl (c2 * y) = Fin q" "\<bar>q - c2 * y\<bar> \<le> 1 / 70368744177664"
    using fl_err_128 by blast
  have "\<bar>c3 * z\<bar> \<le> 128" using cz le by linarith
  then obtain r where r: "fl (c3 * z) = Fin r" "\<bar>r - c3 * z\<bar> \<le> 1 / 70368744177664"
    using fl_err_128 by blast
  have "c1 * 100 + c2 * 100 + c3 * 100 = (c1 + c2 + c3) * 100" by (simp add: algebra_simps)
  also have "\<dots> \<le> (1 + 1 / 2 ^ 40) * 100" using w(7) by (intro mult_right_mono) simp_all
  finally have tot: "c1 * 100 + c2 * 100 + c3 * 100 \<le> 100 + 1 / 8589934592" by simp
  have "\<bar>p + q\<bar> \<le> 128" using p(2) q(2) cx cy cz tot by linarith
  then obtain s where s: "fl (p + q) = Fin s" "\<bar>s - (p + q)\<bar> \<le> 1 / 70368744177664"
    using fl_err_128 by blast
  have "\<bar>s + r\<bar> \<le> 128" using p(2) q(2) r(2) s(2) cx cy cz tot by linarith
  then obtain t where t: "fl (s + r) = Fin t" "\<bar>t - (s + r)\<bar> \<le> 1 / 70368744177664"
    using fl_err_128 by blast
  have "- (1 / 2) \<le> t" "t < 201 / 2" using p(2) q(2) r(2) s(2) t(2) cx cy cz tot by linarith+
  then have "score_in_range (Math_round (Fin t))" by (rule score_in_range_round)
  then show ?thesis by (simp add: x(1) y(1) z(1) w(1-3) p(1) q(1) r(1) s(1) t(1))
qed

subsection \<open>The facets of the Basic implementation\<close>

lemma jawline_expr_range:
  assumes "bounded_point jl" "bounded_point jr" "bounded_point fl'" "bounded_point fr"
    and "bounded_point mb" "bounded_point cb" "bounded_point ft"
    and "dist_js fl' fr \<noteq> 0" "dist_js ft cb \<noteq> 0"
  shows "score_in_range (Math_round (lit 0.7 * norm_js (dist_js jl jr / dist_js fl' fr) (lit 0.60) (lit 0.85)
       + lit 0.3 * norm_js (dist_js mb cb / dist_js ft cb) (lit 0.08) (lit 0.14)))"
  by (rule weighted2_range [OF norm_js_in100_lit(1) norm_js_in100_lit(2) lit_values(1) lit_values(2)])
    (simp_all add: ratio_not_NaN' [OF assms(1,2,3,4,8)] ratio_not_NaN' [OF assms(5,6,7,6,9)])

lemma cheekbones_expr_range:
  assumes "bounded_point cl" "bounded_point cr" "bounded_point jl" "bounded_point jr"
    and "dist_js jl jr \<noteq> 0"
  shows "score_in_range (Math_round (norm_js (dist_js cl cr / dist_js jl jr) (lit 0.95) (lit 1.25)))"
  by (intro score_in_range_round_in100 norm_js_in100_lit ratio_not_NaN' assms)

lemma masculinity_expr_range:
  assumes "bounded_point jl" "bounded_point jr" "bounded_point fl'" "bounded_point fr"
    and "bounded_point ft" "bounded_point cb"
    and "dist_js fl' fr \<noteq> 0" "dist_js ft cb \<noteq> 0"
  shows "score_in_range (Math_round (lit 0.6 * norm_js (dist_js jl jr / dist_js fl' fr) (lit 0.60) (lit 0.85)
       + lit 0.4 * norm_js (dist_js fl' fr / dist_js ft cb) (lit 0.65) (lit 0.90)))"
  by (rule weighted2_range [OF norm_js_in100_lit(1) norm_js_in100_lit(4) lit_values(5) lit_values(6)])
    (simp_all add: ratio_not_NaN' [OF assms(1,2,3,4,7)] ratio_not_NaN' [OF assms(3,4,5,6,8)])

lemma bright_score_in100:
  assumes "isFinite b"
  shows "in100 (clamp (lit 100 - Math_abs (norm_js b (lit 80) (lit 170) - lit 50) * lit 2) (lit 0) (lit 100))"
proof -
  have "b \<noteq> NaN" using assms by (cases b) simp_all
  then obtain x where x: "norm_js b (lit 80) (lit 170) = Fin x"
    using norm_js_in100_lit(10) unfolding in100_def by blast
  have "Math_abs (Fin x - lit 50) * lit 2 \<noteq> NaN"
    by (cases "fl (x - 50)") (simp_all add: Math_abs_def)
  then have "lit 100 - Math_abs (Fin x - lit 50) * lit 2 \<noteq> NaN"
    by (cases "Math_abs (Fin x - lit 50) * lit 2") (simp_all add: minus_number_def)
  then show ?thesis unfolding x in100_def
    using clamp_in_range [of _ 0 100] by simp
qed

lemma skin_quality_expr_range:
  assumes "isFinite s" "isFinite b" "isFinite c"
  shows "score_in_range (Math_round (lit 0.5 * norm_js s (lit 50) (lit 250) + lit 0.3 * norm_js c (lit 20) (lit 70)
       + lit 0.2 * clamp (lit 100 - Math_abs (norm_js b (lit 80) (lit 170) - lit 50) * lit 2) (lit 0) (lit 100)))"
proof -
  have n: "s \<noteq> NaN" "c \<noteq> NaN" using assms by (cases s; cases c; simp)+
  show ?thesis
    by (rule weighted3_range [OF norm_js_in100_lit(8) norm_js_in100_lit(9) bright_score_in100
          lit_values(3) lit_values(2) lit_values(4)])
      (simp_all add: n assms)
qed

subsection \<open>The golden ratio\<close>

lemma Math_abs_nonneg: assumes "a \<noteq> NaN" shows "Fin 0 \<le> Math_abs a"
  using assms by (cases a) (simp_all add: Math_abs_def)

lemma minus_Fin_not_NaN: assumes "a \<noteq> NaN" shows "a - Fin c \<noteq> NaN"
  using assms by (cases a) (simp_all add: minus_number_def)

lemma max0_in:
  assumes "t \<le> Fin h" "0 \<le> h"
  shows "\<exists>v. Math_max [lit 0, t] = Fin v \<and> 0 \<le> v \<and> v \<le> h"
  using assms by (cases t) (auto simp add: Math_max_def)

lemma calculateGoldenRatioScore_in100:
  assumes "ratio \<noteq> NaN"
  shows "in100 (calculateGoldenRatioScore ratio PHI)"
proof -
  define d where "d = Math_abs (ratio - PHI)"
  have "ratio - PHI \<noteq> NaN" unfolding PHI_def lit_values(13) using assms by (rule minus_Fin_not_NaN)
  then have d: "Fin 0 \<le> d" unfolding d_def by (rule Math_abs_nonneg)
  have half: "lit 0.5 = Fin (1 / 2)" by (simp add: lit_def fl_0_5)
  have "Fin 0 / Fin (1 / 2) \<le> d / Fin (1 / 2)" using d by (rule divide_right_mono_number) simp
  then have q: "Fin 0 \<le> d / lit 0.5" unfolding half by simp
  have "Fin 1 - d / lit 0.5 \<le> Fin 1 - Fin 0" using q by (rule minus_left_antimono)
  then have "lit 1 - d / lit 0.5 \<le> Fin 1" by simp
  then obtain v where v: "Math_max [lit 0, lit 1 - d / lit 0.5] = Fin v" "0 \<le> v" "v \<le> 1"
    using max0_in [of _ 1] by auto
  have "0 \<le> v * 100" "v * 100 \<le> 100" using v(2,3) by simp_all
  then obtain s where s: "fl (v * 100) = Fin s" "0 \<le> s" "s \<le> 100"
    using fl_in [of 0 "v * 100" 100] by auto
  have "calculateGoldenRatioScore ratio PHI = clamp (Fin v * lit 100) (lit 0) (lit 100)"
    unfolding calculateGoldenRatioScore_def Let_def d_def [symmetric] v(1) ..
  also have "\<dots> = Fin s" using s by (simp add: max_def min_def)
  finally show ?thesis using s(2,3) by (simp add: in100_def)
qed

lemma mean2_in100:
  assumes "in100 a" "in100 b" shows "in100 ((a + b) / lit 2)"
proof -
  from assms obtain x y where xy: "a = Fin x" "0 \<le> x" "x \<le> 100" "b = Fin y" "0 \<le> y" "y \<le> 100"
    unfolding in100_def by blast
  have "0 \<le> x + y" "x + y \<le> 200" using xy by simp_all
  then obtain s where s: "fl (x + y) = Fin s" "0 \<le> s" "s \<le> 200"
    using fl_in [of 0 "x + y" 200] by auto
  have "0 \<le> s / 2" "s / 2 \<le> 100" using s(2,3) by simp_all
  then obtain m where m: "fl (s / 2) = Fin m" "0 \<le> m" "m \<le> 100"
    using fl_in [of 0 "s / 2" 100] by auto
  show ?thesis unfolding in100_def by (simp add: xy(1,4) s(1) m)
qed

lemma golden_ratio_expr_range:
  assumes "bounded_point ft" "bounded_point cb" "bounded_point fl'" "bounded_point fr"
    and "bounded_point nc"
    and "dist_js fl' fr \<noteq> 0" "dist_js nc cb \<noteq> 0"
  shows "score_in_range (Math_round ((calculateGoldenRatioScore (dist_js ft cb / dist_js fl' fr) PHI
       + calculateGoldenRatioScore (dist_js ft nc / dist_js nc cb) PHI) / lit 2))"
  by (intro score_in_range_round_in100 mean2_in100 calculateGoldenRatioScore_in100
      ratio_not_NaN' assms)

subsection \<open>Sums, means and deviations of distances\<close>

lemma pow2_le: "j \<le> k \<Longrightarrow> (2::real) ^ j \<le> 2 ^ k"
  by (rule power_increasing) simp_all

lemma plus_bounded:
  assumes "0 \<le> a" "a \<le> 2 ^ j" "0 \<le> b" "b \<le> 2 ^ j" "j < 1023"
  shows "\<exists>s. Fin a + Fin b = Fin s \<and> 0 \<le> s \<and> s \<le> 2 ^ Suc j"
proof -
  have "\<bar>a + b\<bar> \<le> 2 ^ Suc j" using assms(1-4) by simp
  then obtain s where s: "fl (a + b) = Fin s" "\<bar>s\<bar> \<le> 2 ^ Suc j"
    using fl_err [of "a + b" "Suc j"] assms(5) by auto
  have "Fin 0 \<le> fl (a + b)" using assms(1,3) by (intro fl_nonneg) simp
  then have "0 \<le> s" unfolding s(1) by simp
  with s show ?thesis by simp
qed

lemma divide_bounded:
  assumes "0 \<le> a" "a \<le> 2 ^ j" "1 \<le> c" "j \<le> 1023"
  shows "\<exists>s. Fin a / Fin c = Fin s \<and> 0 \<le> s \<and> s \<le> 2 ^ j"
proof -
  have c: "0 < c" using assms(3) by simp
  have "a / c \<le> a / 1" using assms(1,3) by (intro divide_left_mono) simp_all
  then have "\<bar>a / c\<bar> \<le> 2 ^ j" using assms(1,2) c by simp
  then obtain s where s: "fl (a / c) = Fin s" "\<bar>s\<bar> \<le> 2 ^ j"
    using fl_err [of "a / c" j] assms(4) by auto
  have "Fin 0 \<le> fl (a / c)" using assms(1) c by (intro fl_nonneg) simp
  then have "0 \<le> s" unfolding s(1) by simp
  with s c show ?thesis by simp
qed

lemma absdiff_bounded:
  assumes "0 \<le> a" "a \<le> 2 ^ j" "0 \<le> b" "b \<le> 2 ^ j" "j \<le> 1023"
  shows "\<exists>s. Math_abs (Fin a - Fin b) = Fin s \<and> 0 \<le> s"
proof -
  have "\<bar>a - b\<bar> \<le> 2 ^ j" using assms(1-4) by simp
  then obtain s where s: "fl (a - b) = Fin s"
    using fl_err [of "a - b" j] assms(5) by auto
  then show ?thesis by (simp add: Math_abs_def)
qed

lemma deviation_tail:
  assumes "0 \<le> md" "0 < av"
  shows "in100 (Math_max [lit 0, lit 100 - (Fin md / Fin av) * lit 300])"
proof -
  have "Fin 0 \<le> fl (md / av)" using assms by (intro fl_nonneg) simp
  then have q: "Fin 0 \<le> Fin md / Fin av" using assms(2) by simp
  have "Fin 0 * Fin 300 \<le> Fin md / Fin av * Fin 300"
    using q by (rule times_right_mono_number) simp
  then have "Fin 0 \<le> Fin md / Fin av * lit 300" by simp
  then have "Fin 100 - Fin md / Fin av * lit 300 \<le> Fin 100 - Fin 0"
    by (rule minus_left_antimono)
  then have "lit 100 - Fin md / Fin av * lit 300 \<le> Fin 100" by simp
  then show ?thesis unfolding in100_def by (rule max0_in) simp
qed

lemma three_lit: "lit 3 = Fin 3" "lit 5 = Fin 5" "lit 2 = Fin 2"
  by simp_all

lemma facial_thirds_expr_range:
  assumes "bounded_point ft" "bounded_point nb" "bounded_point nt" "bounded_point cb"
    and nz: "(dist_js ft nb + dist_js nb nt + dist_js nt cb) / lit 3 \<noteq> 0"
  shows "score_in_range (Math_round (Math_max [lit 0, lit 100 -
          (Math_max [Math_abs (dist_js ft nb - (dist_js ft nb + dist_js nb nt + dist_js nt cb) / lit 3),
                     Math_abs (dist_js nb nt - (dist_js ft nb + dist_js nb nt + dist_js nt cb) / lit 3),
                     Math_abs (dist_js nt cb - (dist_js ft nb + dist_js nb nt + dist_js nt cb) / lit 3)]
           / ((dist_js ft nb + dist_js nb nt + dist_js nt cb) / lit 3)) * lit 300]))"
proof -
  obtain u where u: "dist_js ft nb = Fin u" "0 \<le> u" "u \<le> 2 ^ 502"
    using dist_js_bounded [OF assms(1,2)] by blast
  obtain m where m: "dist_js nb nt = Fin m" "0 \<le> m" "m \<le> 2 ^ 502"
    using dist_js_bounded [OF assms(2,3)] by blast
  obtain l where l: "dist_js nt cb = Fin l" "0 \<le> l" "l \<le> 2 ^ 502"
    using dist_js_bounded [OF assms(3,4)] by blast
  have up: "u \<le> 2 ^ 504" "m \<le> 2 ^ 504" "l \<le> 2 ^ 504" "l \<le> 2 ^ 503"
    using u(3) m(3) l(3) pow2_le [of 502 504] pow2_le [of 502 503] by linarith+
  obtain s1 where s1: "Fin u + Fin m = Fin s1" "0 \<le> s1" "s1 \<le> 2 ^ Suc 502"
    using plus_bounded [OF u(2,3) m(2,3)] by auto
  have s1': "s1 \<le> 2 ^ 503" using s1(3) by simp
  obtain s2 where s2: "Fin s1 + Fin l = Fin s2" "0 \<le> s2" "s2 \<le> 2 ^ Suc 503"
    using plus_bounded [OF s1(2) s1' l(2) up(4)] by auto
  have s2': "s2 \<le> 2 ^ 504" using s2(3) by simp
  obtain av where av: "Fin s2 / Fin 3 = Fin av" "0 \<le> av" "av \<le> 2 ^ 504"
    using divide_bounded [OF s2(2) s2', of 3] by auto
  have avg: "(dist_js ft nb + dist_js nb nt + dist_js nt cb) / lit 3 = Fin av"
    unfolding u(1) m(1) l(1) s1(1) s2(1) three_lit av(1) ..
  have pos: "0 < av" using nz av(2) unfolding avg by simp
  obtain d1 where d1: "Math_abs (Fin u - Fin av) = Fin d1" "0 \<le> d1"
    using absdiff_bounded [OF u(2) up(1) av(2,3)] by auto
  obtain d2 where d2: "Math_abs (Fin m - Fin av) = Fin d2" "0 \<le> d2"
    using absdiff_bounded [OF m(2) up(2) av(2,3)] by auto
  obtain d3 where d3: "Math_abs (Fin l - Fin av) = Fin d3" "0 \<le> d3"
    using absdiff_bounded [OF l(2) up(3) av(2,3)] by auto
  have md: "0 \<le> max (max d1 d2) d3" using d1(2) by simp
  show ?thesis
    unfolding avg unfolding u(1) m(1) l(1) d1(1) d2(1) d3(1) Math_max_Fin3
    by (intro score_in_range_round_in100 deviation_tail md pos)
qed

lemma facial_fifths_expr_range:
  assumes "bounded_point fl'" "bounded_point ero" "bounded_point eri" "bounded_point eli"
    and "bounded_point elo" "bounded_point fr"
    and nz: "(dist_js fl' ero + dist_js ero eri + dist_js eri eli + dist_js eli elo + dist_js elo fr)
       / lit 5 \<noteq> 0"
  shows "score_in_range (Math_round (Math_max [lit 0, lit 100 -
          (Math_max [Math_abs (dist_js fl' ero - (dist_js fl' ero + dist_js ero eri + dist_js eri eli + dist_js eli elo + dist_js elo fr) / lit 5),
                     Math_abs (dist_js ero eri - (dist_js fl' ero + dist_js ero eri + dist_js eri eli + dist_js eli elo + dist_js elo fr) / lit 5),
                     Math_abs (dist_js eri eli - (dist_js fl' ero + dist_js ero eri + dist_js eri eli + dist_js eli elo + dist_js elo fr) / lit 5),
                     Math_abs (dist_js eli elo - (dist_js fl' ero + dist_js ero eri + dist_js eri eli + dist_js eli elo + dist_js elo fr) / lit 5),
                     Math_abs (dist_js elo fr - (dist_js fl' ero + dist_js ero eri + dist_js eri eli + dist_js eli elo + dist_js elo fr) / lit 5)]
           / ((dist_js fl' ero + dist_js ero eri + dist_js eri eli + dist_js eli elo + dist_js elo fr) / lit 5)) * lit 300]))"
proof -
  obtain f1 where f1: "dist_js fl' ero = Fin f1" "0 \<le> f1" "f1 \<le> 2 ^ 502"
    using dist_js_bounded [OF assms(1,2)] by blast
  obtain f2 where f2: "dist_js ero eri = Fin f2" "0 \<le> f2" "f2 \<le> 2 ^ 502"
    using dist_js_bounded [OF assms(2,3)] by blast
  obtain f3 where f3: "dist_js eri eli = Fin f3" "0 \<le> f3" "f3 \<le> 2 ^ 502"
    using dist_js_bounded [OF assms(3,4)] by blast
  obtain f4 where f4: "dist_js eli elo = Fin f4" "0 \<le> f4" "f4 \<le> 2 ^ 502"
    using dist_js_bounded [OF assms(4,5)] by blast
  obtain f5 where f5: "dist_js elo fr = Fin f5" "0 \<le> f5" "f5 \<le> 2 ^ 502"
    using dist_js_bounded [OF assms(5,6)] by blast
  have a: "(2::real) ^ 502 \<le> 2 ^ 503" "(2::real) ^ 502 \<le> 2 ^ 504" "(2::real) ^ 502 \<le> 2 ^ 505"
    "(2::real) ^ 502 \<le> 2 ^ 506"
    by (rule pow2_le, simp)+
  obtain s1 where s1: "Fin f1 + Fin f2 = Fin s1" "0 \<le> s1" "s1 \<le> 2 ^ Suc 502"
    using plus_bounded [OF f1(2,3) f2(2,3)] by auto
  have s1': "s1 \<le> 2 ^ 503" using s1(3) by simp
  have f3': "f3 \<le> 2 ^ 503" using f3(3) a(1) by linarith
  obtain s2 where s2: "Fin s1 + Fin f3 = Fin s2" "0 \<le> s2" "s2 \<le> 2 ^ Suc 503"
    using plus_bounded [OF s1(2) s1' f3(2) f3'] by auto
  have s2': "s2 \<le> 2 ^ 504" using s2(3) by simp
  have f4': "f4 \<le> 2 ^ 504" using f4(3) a(2) by linarith
  obtain s3 where s3: "Fin s2 + Fin f4 = Fin s3" "0 \<le> s3" "s3 \<le> 2 ^ Suc 504"
    using plus_bounded [OF s2(2) s2' f4(2) f4'] by auto
  have s3': "s3 \<le> 2 ^ 505" using s3(3) by simp
  have f5': "f5 \<le> 2 ^ 505" using f5(3) a(3) by linarith
  obtain s4 where s4: "Fin s3 + Fin f5 = Fin s4" "0 \<le> s4" "s4 \<le> 2 ^ Suc 505"
    using plus_bounded [OF s3(2) s3' f5(2) f5'] by auto
  have s4': "s4 \<le> 2 ^ 506" using s4(3) by simp
  obtain av where av: "Fin s4 / Fin 5 = Fin av" "0 \<le> av" "av \<le> 2 ^ 506"
    using divide_bounded [OF s4(2) s4', of 5] by auto
  have avg: "(dist_js fl' ero + dist_js ero eri + dist_js eri eli + dist_js eli elo + dist_js elo fr)
       / lit 5 = Fin av"
    unfolding f1(1) f2(1) f3(1) f4(1) f5(1) s1(1) s2(1) s3(1) s4(1) three_lit av(1) ..
  have pos: "0 < av" using nz av(2) unfolding avg by simp
  have up: "f1 \<le> 2 ^ 506" "f2 \<le> 2 ^ 506" "f3 \<le> 2 ^ 506" "f4 \<le> 2 ^ 506" "f5 \<le> 2 ^ 506"
    using f1(3) f2(3) f3(3) f4(3) f5(3) a(4) by linarith+
  obtain d1 where d1: "Math_abs (Fin f1 - Fin av) = Fin d1" "0 \<le> d1"
    using absdiff_bounded [OF f1(2) up(1) av(2,3)] by auto
  obtain d2 where d2: "Math_abs (Fin f2 - Fin av) = Fin d2" "0 \<le> d2"
    using absdiff_bounded [OF f2(2) up(2) av(2,3)] by auto
  obtain d3 where d3: "Math_abs (Fin f3 - Fin av) = Fin d3" "0 \<le> d3"
    using absdiff_bounded [OF f3(2) up(3) av(2,3)] by auto
  obtain d4 where d4: "Math_abs (Fin f4 - Fin av) = Fin d4" "0 \<le> d4"
    using absdiff_bounded [OF f4(2) up(4) av(2,3)] by auto
  obtain d5 where d5: "Math_abs (Fin f5 - Fin av) = Fin d5" "0 \<le> d5"
    using absdiff_bounded [OF f5(2) up(5) av(2,3)] by auto
  have md: "0 \<le> max (max (max (max d1 d2) d3) d4) d5" using d1(2) by simp
  show ?thesis
    unfolding avg unfolding f1(1) f2(1) f3(1) f4(1) f5(1) d1(1) d2(1) d3(1) d4(1) d5(1) Math_max_Fin5
    by (intro score_in_range_round_in100 deviation_tail md pos)
qed

lemma eye_score_expr_range:
  assumes "bounded_point ero" "bounded_point eri" "bounded_point eli" "bounded_point elo"
    and nz: "(dist_js ero eri + dist_js eli elo) / lit 2 \<noteq> 0"
  shows "score_in_range (Math_round (lit 0.5 * norm_js (dist_js eri eli
         / ((dist_js ero eri + dist_js eli elo) / lit 2)) (lit 0.8) (lit 1.2)
       + lit 0.5 * (if py elo < py eli \<and> py ero < py eri then lit 100 else lit 70)))"
proof -
  obtain f2 where f2: "dist_js ero eri = Fin f2" "0 \<le> f2" "f2 \<le> 2 ^ 502"
    using dist_js_bounded [OF assms(1,2)] by blast
  obtain f3 where f3: "dist_js eri eli = Fin f3" "0 \<le> f3"
    using dist_js_bounded [OF assms(2,3)] by blast
  obtain f4 where f4: "dist_js eli elo = Fin f4" "0 \<le> f4" "f4 \<le> 2 ^ 502"
    using dist_js_bounded [OF assms(3,4)] by blast
  obtain s where s: "Fin f2 + Fin f4 = Fin s" "0 \<le> s" "s \<le> 2 ^ Suc 502"
    using plus_bounded [OF f2(2,3) f4(2,3)] by auto
  obtain av where av: "Fin s / Fin 2 = Fin av" "0 \<le> av"
    using divide_bounded [OF s(2,3), of 2] by auto
  have avg: "(dist_js ero eri + dist_js eli elo) / lit 2 = Fin av"
    unfolding f2(1) f4(1) s(1) three_lit av(1) ..
  have pos: "0 < av" using nz av(2) unfolding avg by simp
  have "Fin f3 / Fin av \<noteq> NaN" using pos by simp
  then have n: "dist_js eri eli / ((dist_js ero eri + dist_js eli elo) / lit 2) \<noteq> NaN"
    unfolding avg f3(1) .
  have t: "in100 (if py elo < py eli \<and> py ero < py eri then lit 100 else lit 70)"
    by (simp add: in100_def)
  show ?thesis
    by (rule weighted2_range [OF norm_js_in100_lit(5) [OF n] t lit_values(3) lit_values(3)])
      simp_all
qed

lemma nose_score_expr_range:
  assumes "bounded_point nl" "bounded_point nr" "bounded_point ml" "bounded_point mr"
    and "bounded_point fl'" "bounded_point fr"
    and "dist_js ml mr \<noteq> 0" "dist_js fl' fr \<noteq> 0"
  shows "score_in_range (Math_round (lit 0.5 * norm_js (dist_js nl nr / dist_js ml mr) (lit 0.6) (lit 0.9)
       + lit 0.5 * norm_js (dist_js nl nr / dist_js fl' fr) (lit 0.20) (lit 0.30)))"
  by (rule weighted2_range [OF norm_js_in100_lit(6) norm_js_in100_lit(7) lit_values(3) lit_values(3)])
    (simp_all add: ratio_not_NaN' [OF assms(1,2,3,4,7)] ratio_not_NaN' [OF assms(1,2,5,6,8)])

subsection \<open>Symmetry\<close>

text \<open>A positive double is at least \<open>2 powi (- 1074)\<close>, and the rounded half of a
  number that is not rounded to zero is at least a quarter of it. So the difference of
  two distances is at most four times their computed mean.\<close>

lemma nearest_pos_ge: assumes "0 < nearest x" shows "2 powi (- 1074) \<le> nearest x"
proof -
  define e where "e = expo x"
  define n where "n = rne (x / 2 powi e)"
  have y: "nearest x = of_int n * 2 powi e" by (simp add: nearest_def Let_def e_def n_def)
  have "0 < real_of_int n * 2 powi e" using assms y by simp
  moreover have "0 < (2::real) powi e" by simp
  ultimately have "0 < real_of_int n" by (rule zero_less_mult_pos2)
  then have "1 \<le> n" by simp
  then have "1 \<le> real_of_int n" by simp
  then have "1 * 2 powi e \<le> real_of_int n * 2 powi e" by (intro mult_right_mono) simp_all
  then have a: "2 powi e \<le> real_of_int n * 2 powi e" by (simp only: mult_1)
  have b: "(2::real) powi (- 1074) \<le> 2 powi e"
    unfolding e_def using expo_ge [of x] by (intro power_int_increasing) simp_all
  from b a show ?thesis unfolding y by (rule order_trans)
qed

lemma half_round:
  assumes "0 \<le> s" "0 < nearest (s / 2)" shows "s \<le> 4 * nearest (s / 2)"
proof (cases "2 powi (- 1022) \<le> s / 2")
  case True
  then have "2 powi (- 1022) \<le> \<bar>s / 2\<bar>" using assms(1) by simp
  then have "\<bar>nearest (s / 2) - s / 2\<bar> \<le> \<bar>s / 2\<bar> / 2 ^ 53" by (rule nearest_err_rel)
  moreover have "\<bar>s / 2\<bar> / 2 ^ 53 = s / 18014398509481984" using assms(1) by simp
  ultimately have "\<bar>nearest (s / 2) - s / 2\<bar> \<le> s / 18014398509481984" by (simp only:)
  then show ?thesis using assms(1) by linarith
next
  case False
  define m :: real where "m = 2 powi (- 1074)"
  have m: "0 < m" by (simp add: m_def)
  have s0: "s / 2 \<noteq> 0" using assms(2) by auto
  have lt: "\<bar>s / 2\<bar> < 2 powi (- 1022)" using False assms(1) by simp
  have "(2::real) powi (- 1022) \<le> 2 powi (- 1074 + 53)"
    by (intro power_int_increasing) simp_all
  with lt have "\<bar>s / 2\<bar> < 2 powi (- 1074 + 53)" by linarith
  then have e: "expo (s / 2) = - 1074"
    by (intro expo_eqI [OF s0]) simp_all
  have "\<bar>nearest (s / 2) - s / 2\<bar> \<le> m / 2"
    using nearest_err [of "s / 2"] unfolding e m_def .
  moreover have "m \<le> nearest (s / 2)" unfolding m_def using assms(2) by (rule nearest_pos_ge)
  ultimately show ?thesis by linarith
qed

lemma calculateSymmetry_range:
  assumes "bounded_point c" "bounded_point l" "bounded_point r"
  shows "\<exists>s. calculateSymmetry c l r = Fin s \<and> - 300 \<le> s \<and> s \<le> 100"
proof -
  obtain dl where dl: "dist_js c l = Fin dl" "0 \<le> dl" "dl \<le> 2 ^ 502"
    using dist_js_bounded [OF assms(1,2)] by blast
  obtain dr where dr: "dist_js c r = Fin dr" "0 \<le> dr" "dr \<le> 2 ^ 502"
    using dist_js_bounded [OF assms(1,3)] by blast
  obtain s where s: "Fin dl + Fin dr = Fin s" "0 \<le> s" "s \<le> 2 ^ Suc 502"
    using plus_bounded [OF dl(2,3) dr(2,3)] by auto
  have sn: "s = nearest (dl + dr)" using s(1) by (simp add: fl_Fin_iff)
  obtain av where av: "Fin s / Fin 2 = Fin av" "0 \<le> av"
    using divide_bounded [OF s(2,3), of 2] by auto
  have avn: "av = nearest (s / 2)" using av(1) by (simp add: fl_Fin_iff)
  have "\<bar>dl - dr\<bar> \<le> 2 ^ 502" using dl dr by simp
  then obtain x where x: "fl (dl - dr) = Fin x" using fl_err [of "dl - dr" 502] by auto
  then have xn: "x = nearest (dl - dr)" by (simp add: fl_Fin_iff)
  have "nearest (dl - dr) \<le> nearest (dl + dr)" using dr(2) by (intro nearest_mono) simp
  moreover have "nearest (- (dl + dr)) \<le> nearest (dl - dr)" using dl(2) by (intro nearest_mono) simp
  then have "- nearest (dl + dr) \<le> nearest (dl - dr)" by (simp only: nearest_minus)
  ultimately have xs: "\<bar>x\<bar> \<le> s" unfolding xn sn by linarith
  have avg: "(dist_js c l + dist_js c r) / lit 2 = Fin av"
    unfolding dl(1) dr(1) s(1) using av(1) by simp
  have diff: "Math_abs (dist_js c l - dist_js c r) = Fin \<bar>x\<bar>"
    unfolding dl(1) dr(1) by (simp add: x Math_abs_def)
  show ?thesis
  proof (cases "0 < av")
    case False
    then have "calculateSymmetry c l r = Fin 100"
      unfolding calculateSymmetry_def Let_def avg by simp
    then show ?thesis by simp
  next
    case True
    have "s \<le> 4 * av" unfolding avn by (rule half_round [OF s(2)]) (use True avn in simp)
    then have "\<bar>x\<bar> / av \<le> 4" using xs True by (simp add: pos_divide_le_eq)
    moreover have "0 \<le> \<bar>x\<bar> / av" using True by simp
    ultimately obtain q where q: "fl (\<bar>x\<bar> / av) = Fin q" "0 \<le> q" "q \<le> 4"
      using fl_in [of 0 "\<bar>x\<bar> / av" 4] by auto
    have "- 3 \<le> 1 - q" "1 - q \<le> 1" using q(2,3) by simp_all
    then obtain t where t: "fl (1 - q) = Fin t" "- 3 \<le> t" "t \<le> 1"
      using fl_in [of "- 3" "1 - q" 1] by auto
    have "- 300 \<le> t * 100" "t * 100 \<le> 100" using t(2,3) by simp_all
    then obtain v where v: "fl (t * 100) = Fin v" "- 300 \<le> v" "v \<le> 100"
      using fl_in [of "- 300" "t * 100" 100] by auto
    have "calculateSymmetry c l r = Fin v"
      unfolding calculateSymmetry_def Let_def avg diff using True by (simp add: q(1) t(1) v(1))
    with v show ?thesis by simp
  qed
qed

lemma integer_at_most_100_round:
  assumes "s \<le> 100" shows "integer_at_most_100 (Math_round (Fin s))"
proof -
  have "\<lfloor>s + 1 / 2\<rfloor> \<le> 100" using assms by (simp add: floor_le_iff)
  then have "real_of_int \<lfloor>s + 1 / 2\<rfloor> \<le> 100" by simp
  then show ?thesis by (simp add: integer_at_most_100_def)
qed

lemma symmetry_expr_range:
  assumes "bounded_point nc" "bounded_point elo" "bounded_point ero" "bounded_point cl"
    and "bounded_point cr" "bounded_point jl" "bounded_point jr"
  shows "\<exists>s. (calculateSymmetry nc elo ero + calculateSymmetry nc cl cr
       + calculateSymmetry nc jl jr) / lit 3 = Fin s \<and> - 300 \<le> s \<and> s \<le> 100"
proof -
  obtain a where a: "calculateSymmetry nc elo ero = Fin a" "- 300 \<le> a" "a \<le> 100"
    using calculateSymmetry_range [OF assms(1,2,3)] by blast
  obtain b where b: "calculateSymmetry nc cl cr = Fin b" "- 300 \<le> b" "b \<le> 100"
    using calculateSymmetry_range [OF assms(1,4,5)] by blast
  obtain c where c: "calculateSymmetry nc jl jr = Fin c" "- 300 \<le> c" "c \<le> 100"
    using calculateSymmetry_range [OF assms(1,6,7)] by blast
  have "- 600 \<le> a + b" "a + b \<le> 200" using a b by simp_all
  then obtain s1 where s1: "fl (a + b) = Fin s1" "- 600 \<le> s1" "s1 \<le> 200"
    using fl_in [of "- 600" "a + b" 200] by auto
  have "- 900 \<le> s1 + c" "s1 + c \<le> 300" using s1 c by simp_all
  then obtain s2 where s2: "fl (s1 + c) = Fin s2" "- 900 \<le> s2" "s2 \<le> 300"
    using fl_in [of "- 900" "s1 + c" 300] by auto
  have "- 300 \<le> s2 / 3" "s2 / 3 \<le> 100" using s2 by simp_all
  then obtain m where m: "fl (s2 / 3) = Fin m" "- 300 \<le> m" "m \<le> 100"
    using fl_in [of "- 300" "s2 / 3" 100] by auto
  show ?thesis unfolding a(1) b(1) c(1) by (simp add: s1(1) s2(1) m)
qed

section \<open>The weighted sums of the overall scores\<close>

text \<open>One product of a weight and a facet, and one addition of the running sum: each
  is off by at most \<open>1 / 2 ^ 45\<close> and \<open>1 / 2 ^ 44\<close>, and each is monotone.\<close>

lemma product_step:
  assumes w: "lit w = Fin c" "\<bar>c - r\<bar> \<le> 1 / 2 ^ 55" "0 \<le> c"
    and x: "\<bar>x\<bar> \<le> 300" "\<bar>r * x\<bar> \<le> 100"
  shows "\<exists>p. lit w * Fin x = Fin p \<and> \<bar>p - r * x\<bar> \<le> 1 / 2 ^ 45 \<and> is_double p
    \<and> (0 \<le> x \<longrightarrow> 0 \<le> p)"
proof -
  have "\<bar>c * x - r * x\<bar> = \<bar>c - r\<bar> * \<bar>x\<bar>" by (simp add: abs_mult flip: left_diff_distrib)
  also have "\<dots> \<le> 1 / 2 ^ 55 * 300" using w(2) x(1) by (intro mult_mono) simp_all
  also have "\<dots> \<le> 1 / 2 ^ 46" by simp
  finally have d: "\<bar>c * x - r * x\<bar> \<le> 1 / 70368744177664" by simp
  then have "\<bar>c * x\<bar> \<le> 128" using x(2) by linarith
  then obtain p where p: "fl (c * x) = Fin p" "\<bar>p - c * x\<bar> \<le> 1 / 70368744177664"
    using fl_err_128 by blast
  have "\<bar>p - r * x\<bar> \<le> 1 / 35184372088832" using p(2) d by linarith
  then have e: "\<bar>p - r * x\<bar> \<le> 1 / 2 ^ 45" by simp
  have n: "0 \<le> p" if "0 \<le> x"
  proof -
    have "Fin 0 \<le> fl (c * x)" using that w(3) by (intro fl_nonneg) simp
    then show ?thesis unfolding p(1) by simp
  qed
  have "lit w * Fin x = Fin p" by (simp add: w(1) p(1))
  with e n is_double_fl [OF p(1)] show ?thesis by blast
qed

lemma sum_step:
  assumes a: "\<bar>a - A\<bar> \<le> E" "E \<le> 1 / 2 ^ 40" "is_double a"
    and p: "\<bar>p - P\<bar> \<le> 1 / 2 ^ 45" "is_double p"
    and b: "\<bar>A + P\<bar> \<le> 120"
  shows "\<exists>s. Fin a + Fin p = Fin s \<and> \<bar>s - (A + P)\<bar> \<le> E + 1 / 2 ^ 44 \<and> is_double s
    \<and> (0 \<le> p \<longrightarrow> a \<le> s) \<and> (0 \<le> a \<longrightarrow> p \<le> s)"
proof -
  have E: "E \<le> 1 / 1099511627776" using a(2) by simp
  have pe: "\<bar>p - P\<bar> \<le> 1 / 35184372088832" using p(1) by simp
  have "\<bar>a + p\<bar> \<le> 128" using a(1) E pe b by linarith
  then obtain s where s: "fl (a + p) = Fin s" "\<bar>s - (a + p)\<bar> \<le> 1 / 70368744177664"
    using fl_err_128 by blast
  have "\<bar>s - (A + P)\<bar> \<le> E + 1 / 17592186044416" using a(1) pe s(2) by linarith
  then have e: "\<bar>s - (A + P)\<bar> \<le> E + 1 / 2 ^ 44" by simp
  have m1: "a \<le> s" if "0 \<le> p"
  proof -
    have "fl a \<le> fl (a + p)" using that by (intro fl_mono) simp
    then show ?thesis using a(3) unfolding s(1) is_double_def by simp
  qed
  have m2: "p \<le> s" if "0 \<le> a"
  proof -
    have "fl p \<le> fl (a + p)" using that by (intro fl_mono) simp
    then show ?thesis using p(2) unfolding s(1) is_double_def by simp
  qed
  have "Fin a + Fin p = Fin s" by (simp add: s(1))
  with e m1 m2 is_double_fl [OF s(1)] show ?thesis by blast
qed

lemma weight_errors:
  "\<bar>5404319552844595 / 18014398509481984 - 30 / 100 :: real\<bar> \<le> 1 / 2 ^ 55"
  "\<bar>1 / 4 - 25 / 100 :: real\<bar> \<le> 1 / 2 ^ 55"
  "\<bar>3602879701896397 / 18014398509481984 - 20 / 100 :: real\<bar> \<le> 1 / 2 ^ 55"
  "\<bar>5404319552844595 / 36028797018963968 - 15 / 100 :: real\<bar> \<le> 1 / 2 ^ 55"
  "\<bar>3602879701896397 / 36028797018963968 - 10 / 100 :: real\<bar> \<le> 1 / 2 ^ 55"
  "\<bar>3602879701896397 / 72057594037927936 - 5 / 100 :: real\<bar> \<le> 1 / 2 ^ 55"
  by simp_all

lemma overall_basic_sum:
  assumes "0 \<le> j" "j \<le> 100" "0 \<le> c" "c \<le> 100" "0 \<le> k" "k \<le> 100" "0 \<le> m" "m \<le> 100"
  shows "\<exists>S. lit 0.30 * Fin j + lit 0.25 * Fin c + lit 0.20 * Fin k + lit 0.25 * Fin m = Fin S
    \<and> \<bar>S - (30 / 100 * j + 25 / 100 * c + 20 / 100 * k + 25 / 100 * m)\<bar> \<le> 1 / 2 ^ 40"
proof -
  obtain p1 where p1: "lit 0.30 * Fin j = Fin p1" "\<bar>p1 - 30 / 100 * j\<bar> \<le> 1 / 2 ^ 45" "is_double p1"
    using product_step [OF lit_values(7) weight_errors(1), of j] assms by auto
  obtain p2 where p2: "lit 0.25 * Fin c = Fin p2" "\<bar>p2 - 25 / 100 * c\<bar> \<le> 1 / 2 ^ 45" "is_double p2"
    using product_step [OF lit_values(8) weight_errors(2), of c] assms by auto
  obtain p3 where p3: "lit 0.20 * Fin k = Fin p3" "\<bar>p3 - 20 / 100 * k\<bar> \<le> 1 / 2 ^ 45" "is_double p3"
    using product_step [OF lit_values(9) weight_errors(3), of k] assms by auto
  obtain p4 where p4: "lit 0.25 * Fin m = Fin p4" "\<bar>p4 - 25 / 100 * m\<bar> \<le> 1 / 2 ^ 45" "is_double p4"
    using product_step [OF lit_values(8) weight_errors(2), of m] assms by auto
  have b2: "\<bar>30 / 100 * j + 25 / 100 * c\<bar> \<le> 120" using assms by simp
  obtain s2 where s2: "Fin p1 + Fin p2 = Fin s2"
    "\<bar>s2 - (30 / 100 * j + 25 / 100 * c)\<bar> \<le> 1 / 2 ^ 45 + 1 / 2 ^ 44" "is_double s2"
    using sum_step [OF p1(2) _ p1(3) p2(2,3) b2] by auto
  have b3: "\<bar>30 / 100 * j + 25 / 100 * c + 20 / 100 * k\<bar> \<le> 120" using assms by simp
  obtain s3 where s3: "Fin s2 + Fin p3 = Fin s3"
    "\<bar>s3 - (30 / 100 * j + 25 / 100 * c + 20 / 100 * k)\<bar> \<le> 1 / 2 ^ 45 + 1 / 2 ^ 44 + 1 / 2 ^ 44"
    "is_double s3"
    using sum_step [OF s2(2) _ s2(3) p3(2,3) b3] by auto
  have b4: "\<bar>30 / 100 * j + 25 / 100 * c + 20 / 100 * k + 25 / 100 * m\<bar> \<le> 120" using assms by simp
  obtain s4 where s4: "Fin s3 + Fin p4 = Fin s4"
    "\<bar>s4 - (30 / 100 * j + 25 / 100 * c + 20 / 100 * k + 25 / 100 * m)\<bar>
       \<le> 1 / 2 ^ 45 + 1 / 2 ^ 44 + 1 / 2 ^ 44 + 1 / 2 ^ 44"
    "is_double s4"
    using sum_step [OF s3(2) _ s3(3) p4(2,3) b4] by auto
  have "lit 0.30 * Fin j + lit 0.25 * Fin c + lit 0.20 * Fin k + lit 0.25 * Fin m = Fin s4"
    unfolding p1(1) p2(1) p3(1) p4(1) s2(1) s3(1) s4(1) ..
  moreover have "\<bar>s4 - (30 / 100 * j + 25 / 100 * c + 20 / 100 * k + 25 / 100 * m)\<bar> \<le> 1 / 2 ^ 40"
    using s4(2) by simp
  ultimately show ?thesis by blast
qed

lemma overall_extended_sum:
  assumes "0 \<le> j" "j \<le> 100" "0 \<le> c" "c \<le> 100" "0 \<le> k" "k \<le> 100" "0 \<le> m" "m \<le> 100"
    and "- 300 \<le> sy" "sy \<le> 100" "0 \<le> g" "g \<le> 100" "0 \<le> t" "t \<le> 100"
    and "0 \<le> f" "f \<le> 100" "0 \<le> e" "e \<le> 100" "0 \<le> n" "n \<le> 100"
  shows "\<exists>S p. lit 0.15 * Fin j + lit 0.15 * Fin c + lit 0.15 * Fin k + lit 0.15 * Fin m
        + lit 0.10 * Fin sy + lit 0.05 * Fin g + lit 0.05 * Fin t + lit 0.05 * Fin f
        + lit 0.10 * Fin e + lit 0.05 * Fin n = Fin S
    \<and> \<bar>S - (15 / 100 * j + 15 / 100 * c + 15 / 100 * k + 15 / 100 * m + 10 / 100 * sy
          + 5 / 100 * g + 5 / 100 * t + 5 / 100 * f + 10 / 100 * e + 5 / 100 * n)\<bar> \<le> 1 / 2 ^ 40
    \<and> lit 0.10 * Fin sy = Fin p \<and> p \<le> S"
proof -
  have sy: "\<bar>sy\<bar> \<le> 300" "\<bar>10 / 100 * sy\<bar> \<le> 100" using assms(9,10) by simp_all
  obtain p1 where p1: "lit 0.15 * Fin j = Fin p1" "\<bar>p1 - 15 / 100 * j\<bar> \<le> 1 / 2 ^ 45" "is_double p1" "0 \<le> p1"
    using product_step [OF lit_values(10) weight_errors(4), of j] assms by auto
  obtain p2 where p2: "lit 0.15 * Fin c = Fin p2" "\<bar>p2 - 15 / 100 * c\<bar> \<le> 1 / 2 ^ 45" "is_double p2" "0 \<le> p2"
    using product_step [OF lit_values(10) weight_errors(4), of c] assms by auto
  obtain p3 where p3: "lit 0.15 * Fin k = Fin p3" "\<bar>p3 - 15 / 100 * k\<bar> \<le> 1 / 2 ^ 45" "is_double p3" "0 \<le> p3"
    using product_step [OF lit_values(10) weight_errors(4), of k] assms by auto
  obtain p4 where p4: "lit 0.15 * Fin m = Fin p4" "\<bar>p4 - 15 / 100 * m\<bar> \<le> 1 / 2 ^ 45" "is_double p4" "0 \<le> p4"
    using product_step [OF lit_values(10) weight_errors(4), of m] assms by auto
  obtain p5 where p5: "lit 0.10 * Fin sy = Fin p5" "\<bar>p5 - 10 / 100 * sy\<bar> \<le> 1 / 2 ^ 45" "is_double p5"
    using product_step [OF lit_values(11) weight_errors(5) _ sy] by auto
  obtain p6 where p6: "lit 0.05 * Fin g = Fin p6" "\<bar>p6 - 5 / 100 * g\<bar> \<le> 1 / 2 ^ 45" "is_double p6" "0 \<le> p6"
    using product_step [OF lit_values(12) weight_errors(6), of g] assms by auto
  obtain p7 where p7: "lit 0.05 * Fin t = Fin p7" "\<bar>p7 - 5 / 100 * t\<bar> \<le> 1 / 2 ^ 45" "is_double p7" "0 \<le> p7"
    using product_step [OF lit_values(12) weight_errors(6), of t] assms by auto
  obtain p8 where p8: "lit 0.05 * Fin f = Fin p8" "\<bar>p8 - 5 / 100 * f\<bar> \<le> 1 / 2 ^ 45" "is_double p8" "0 \<le> p8"
    using product_step [OF lit_values(12) weight_errors(6), of f] assms by auto
  obtain p9 where p9: "lit 0.10 * Fin e = Fin p9" "\<bar>p9 - 10 / 100 * e\<bar> \<le> 1 / 2 ^ 45" "is_double p9" "0 \<le> p9"
    using product_step [OF lit_values(11) weight_errors(5), of e] assms by auto
  obtain p10 where p10: "lit 0.05 * Fin n = Fin p10" "\<bar>p10 - 5 / 100 * n\<bar> \<le> 1 / 2 ^ 45" "is_double p10" "0 \<le> p10"
    using product_step [OF lit_values(12) weight_errors(6), of n] assms by auto
  have b2: "\<bar>15 / 100 * j + 15 / 100 * c\<bar> \<le> 120" using assms by simp
  obtain s2 where s2: "Fin p1 + Fin p2 = Fin s2"
    "\<bar>s2 - (15 / 100 * j + 15 / 100 * c)\<bar>
       \<le> 1 / 2 ^ 45 + 1 / 2 ^ 44"
    "is_double s2" "0 \<le> s2"
    using sum_step [OF p1(2) _ p1(3) p2(2,3) b2] p1(4) p2(4) by auto
  have b3: "\<bar>15 / 100 * j + 15 / 100 * c + 15 / 100 * k\<bar> \<le> 120" using assms by simp
  obtain s3 where s3: "Fin s2 + Fin p3 = Fin s3"
    "\<bar>s3 - (15 / 100 * j + 15 / 100 * c + 15 / 100 * k)\<bar>
       \<le> 1 / 2 ^ 45 + 1 / 2 ^ 44 + 1 / 2 ^ 44"
    "is_double s3" "0 \<le> s3"
    using sum_step [OF s2(2) _ s2(3) p3(2,3) b3] s2(4) p3(4) by auto
  have b4: "\<bar>15 / 100 * j + 15 / 100 * c + 15 / 100 * k + 15 / 100 * m\<bar> \<le> 120" using assms by simp
  obtain s4 where s4: "Fin s3 + Fin p4 = Fin s4"
    "\<bar>s4 - (15 / 100 * j + 15 / 100 * c + 15 / 100 * k + 15 / 100 * m)\<bar>
       \<le> 1 / 2 ^ 45 + 1 / 2 ^ 44 + 1 / 2 ^ 44 + 1 / 2 ^ 44"
    "is_double s4" "0 \<le> s4"
    using sum_step [OF s3(2) _ s3(3) p4(2,3) b4] s3(4) p4(4) by auto
  have b5: "\<bar>15 / 100 * j + 15 / 100 * c + 15 / 100 * k + 15 / 100 * m + 10 / 100 * sy\<bar> \<le> 120" using assms by simp
  obtain s5 where s5: "Fin s4 + Fin p5 = Fin s5"
    "\<bar>s5 - (15 / 100 * j + 15 / 100 * c + 15 / 100 * k + 15 / 100 * m + 10 / 100 * sy)\<bar>
       \<le> 1 / 2 ^ 45 + 1 / 2 ^ 44 + 1 / 2 ^ 44 + 1 / 2 ^ 44 + 1 / 2 ^ 44"
    "is_double s5" "p5 \<le> s5"
    using sum_step [OF s4(2) _ s4(3) p5(2,3) b5] s4(4) by auto
  have b6: "\<bar>15 / 100 * j + 15 / 100 * c + 15 / 100 * k + 15 / 100 * m + 10 / 100 * sy + 5 / 100 * g\<bar> \<le> 120" using assms by simp
  obtain s6 where s6: "Fin s5 + Fin p6 = Fin s6"
    "\<bar>s6 - (15 / 100 * j + 15 / 100 * c + 15 / 100 * k + 15 / 100 * m + 10 / 100 * sy + 5 / 100 * g)\<bar>
       \<le> 1 / 2 ^ 45 + 1 / 2 ^ 44 + 1 / 2 ^ 44 + 1 / 2 ^ 44 + 1 / 2 ^ 44 + 1 / 2 ^ 44"
    "is_double s6" "s5 \<le> s6"
    using sum_step [OF s5(2) _ s5(3) p6(2,3) b6] p6(4) by auto
  have b7: "\<bar>15 / 100 * j + 15 / 100 * c + 15 / 100 * k + 15 / 100 * m + 10 / 100 * sy + 5 / 100 * g + 5 / 100 * t\<bar> \<le> 120" using assms by simp
  obtain s7 where s7: "Fin s6 + Fin p7 = Fin s7"
    "\<bar>s7 - (15 / 100 * j + 15 / 100 * c + 15 / 100 * k + 15 / 100 * m + 10 / 100 * sy + 5 / 100 * g + 5 / 100 * t)\<bar>
       \<le> 1 / 2 ^ 45 + 1 / 2 ^ 44 + 1 / 2 ^ 44 + 1 / 2 ^ 44 + 1 / 2 ^ 44 + 1 / 2 ^ 44 + 1 / 2 ^ 44"
    "is_double s7" "s6 \<le> s7"
    using sum_step [OF s6(2) _ s6(3) p7(2,3) b7] p7(4) by auto
  have b8: "\<bar>15 / 100 * j + 15 / 100 * c + 15 / 100 * k + 15 / 100 * m + 10 / 100 * sy + 5 / 100 * g + 5 / 100 * t + 5 / 100 * f\<bar> \<le> 120" using assms by simp
  obtain s8 where s8: "Fin s7 + Fin p8 = Fin s8"
    "\<bar>s8 - (15 / 100 * j + 15 / 100 * c + 15 / 100 * k + 15 / 100 * m + 10 / 100 * sy + 5 / 100 * g + 5 / 100 * t + 5 / 100 * f)\<bar>
       \<le> 1 / 2 ^ 45 + 1 / 2 ^ 44 + 1 / 2 ^ 44 + 1 / 2 ^ 44 + 1 / 2 ^ 44 + 1 / 2 ^ 44 + 1 / 2 ^ 44 + 1 / 2 ^ 44"
    "is_double s8" "s7 \<le> s8"
    using sum_step [OF s7(2) _ s7(3) p8(2,3) b8] p8(4) by auto
  have b9: "\<bar>15 / 100 * j + 15 / 100 * c + 15 / 100 * k + 15 / 100 * m + 10 / 100 * sy + 5 / 100 * g + 5 / 100 * t + 5 / 100 * f + 10 / 100 * e\<bar> \<le> 120" using assms by simp
  obtain s9 where s9: "Fin s8 + Fin p9 = Fin s9"
    "\<bar>s9 - (15 / 100 * j + 15 / 100 * c + 15 / 100 * k + 15 / 100 * m + 10 / 100 * sy + 5 / 100 * g + 5 / 100 * t + 5 / 100 * f + 10 / 100 * e)\<bar>
       \<le> 1 / 2 ^ 45 + 1 / 2 ^ 44 + 1 / 2 ^ 44 + 1 / 2 ^ 44 + 1 / 2 ^ 44 + 1 / 2 ^ 44 + 1 / 2 ^ 44 + 1 / 2 ^ 44 + 1 / 2 ^ 44"
    "is_double s9" "s8 \<le> s9"
    using sum_step [OF s8(2) _ s8(3) p9(2,3) b9] p9(4) by auto
  have b10: "\<bar>15 / 100 * j + 15 / 100 * c + 15 / 100 * k + 15 / 100 * m + 10 / 100 * sy + 5 / 100 * g + 5 / 100 * t + 5 / 100 * f + 10 / 100 * e + 5 / 100 * n\<bar> \<le> 120" using assms by simp
  obtain s10 where s10: "Fin s9 + Fin p10 = Fin s10"
    "\<bar>s10 - (15 / 100 * j + 15 / 100 * c + 15 / 100 * k + 15 / 100 * m + 10 / 100 * sy + 5 / 100 * g + 5 / 100 * t + 5 / 100 * f + 10 / 100 * e + 5 / 100 * n)\<bar>
       \<le> 1 / 2 ^ 45 + 1 / 2 ^ 44 + 1 / 2 ^ 44 + 1 / 2 ^ 44 + 1 / 2 ^ 44 + 1 / 2 ^ 44 + 1 / 2 ^ 44 + 1 / 2 ^ 44 + 1 / 2 ^ 44 + 1 / 2 ^ 44"
    "is_double s10" "s9 \<le> s10"
    using sum_step [OF s9(2) _ s9(3) p10(2,3) b10] p10(4) by auto
  have "lit 0.15 * Fin j + lit 0.15 * Fin c + lit 0.15 * Fin k + lit 0.15 * Fin m
        + lit 0.10 * Fin sy + lit 0.05 * Fin g + lit 0.05 * Fin t + lit 0.05 * Fin f
        + lit 0.10 * Fin e + lit 0.05 * Fin n = Fin s10"
    unfolding p1(1) p2(1) p3(1) p4(1) p5(1) p6(1) p7(1) p8(1) p9(1) p10(1)
      s2(1) s3(1) s4(1) s5(1) s6(1) s7(1) s8(1) s9(1) s10(1) ..
  moreover have "\<bar>s10 - (15 / 100 * j + 15 / 100 * c + 15 / 100 * k + 15 / 100 * m + 10 / 100 * sy + 5 / 100 * g + 5 / 100 * t + 5 / 100 * f + 10 / 100 * e + 5 / 100 * n)\<bar> \<le> 1 / 2 ^ 40"
    using s10(2) by simp
  moreover have "p5 \<le> s10" using s5(4) s6(4) s7(4) s8(4) s9(4) s10(4) by linarith
  ultimately show ?thesis using p5(1) by blast
qed

subsection \<open>Overall and potential\<close>

lemma integer_at_most_100_round':
  assumes "s < 201 / 2" shows "integer_at_most_100 (Math_round (Fin s))"
proof -
  have "\<lfloor>s + 1 / 2\<rfloor> \<le> 100" using assms by (simp add: floor_le_iff)
  then have "real_of_int \<lfloor>s + 1 / 2\<rfloor> \<le> 100" by simp
  then show ?thesis by (simp add: integer_at_most_100_def)
qed

lemma score_in_range_within:
  assumes "score_in_range a" obtains v where "a = Fin v" "0 \<le> v" "v \<le> 100"
  using assms unfolding score_in_range_def by (cases a) auto

lemma overall_extended_expr_range:
  assumes "score_in_range j" "score_in_range c" "score_in_range k" "score_in_range m"
    and "- 300 \<le> s" "s \<le> 100"
    and "score_in_range g" "score_in_range t" "score_in_range f" "score_in_range e"
    and "score_in_range n"
  shows "integer_at_most_100 (Math_round (lit 0.15 * j + lit 0.15 * c + lit 0.15 * k + lit 0.15 * m
        + lit 0.10 * Math_round (Fin s) + lit 0.05 * g + lit 0.05 * t + lit 0.05 * f
        + lit 0.10 * e + lit 0.05 * n))"
    and "Math_round (lit 0.10 * Math_round (Fin s))
      \<le> Math_round (lit 0.15 * j + lit 0.15 * c + lit 0.15 * k + lit 0.15 * m
        + lit 0.10 * Math_round (Fin s) + lit 0.05 * g + lit 0.05 * t + lit 0.05 * f
        + lit 0.10 * e + lit 0.05 * n)"
proof -
  from assms(1) obtain j' where j: "j = Fin j'" "0 \<le> j'" "j' \<le> 100" by (rule score_in_range_within)
  from assms(2) obtain c' where c: "c = Fin c'" "0 \<le> c'" "c' \<le> 100" by (rule score_in_range_within)
  from assms(3) obtain k' where k: "k = Fin k'" "0 \<le> k'" "k' \<le> 100" by (rule score_in_range_within)
  from assms(4) obtain m' where m: "m = Fin m'" "0 \<le> m'" "m' \<le> 100" by (rule score_in_range_within)
  from assms(7) obtain g' where g: "g = Fin g'" "0 \<le> g'" "g' \<le> 100" by (rule score_in_range_within)
  from assms(8) obtain t' where t: "t = Fin t'" "0 \<le> t'" "t' \<le> 100" by (rule score_in_range_within)
  from assms(9) obtain f' where f: "f = Fin f'" "0 \<le> f'" "f' \<le> 100" by (rule score_in_range_within)
  from assms(10) obtain e' where e: "e = Fin e'" "0 \<le> e'" "e' \<le> 100" by (rule score_in_range_within)
  from assms(11) obtain n' where n: "n = Fin n'" "0 \<le> n'" "n' \<le> 100" by (rule score_in_range_within)
  define y where "y = real_of_int \<lfloor>s + 1 / 2\<rfloor>"
  have sy: "Math_round (Fin s) = Fin y" by (simp add: y_def)
  have "- 300 \<le> \<lfloor>s + 1 / 2\<rfloor>" "\<lfloor>s + 1 / 2\<rfloor> \<le> 100"
    using assms(5,6) by linarith+
  then have "real_of_int (- 300) \<le> real_of_int \<lfloor>s + 1 / 2\<rfloor>"
    "real_of_int \<lfloor>s + 1 / 2\<rfloor> \<le> real_of_int 100"
    by (simp_all only: of_int_le_iff)
  then have y: "- 300 \<le> y" "y \<le> 100" unfolding y_def by simp_all
  obtain S p where S: "lit 0.15 * Fin j' + lit 0.15 * Fin c' + lit 0.15 * Fin k' + lit 0.15 * Fin m'
        + lit 0.10 * Fin y + lit 0.05 * Fin g' + lit 0.05 * Fin t' + lit 0.05 * Fin f'
        + lit 0.10 * Fin e' + lit 0.05 * Fin n' = Fin S"
    and err: "\<bar>S - (15 / 100 * j' + 15 / 100 * c' + 15 / 100 * k' + 15 / 100 * m' + 10 / 100 * y
          + 5 / 100 * g' + 5 / 100 * t' + 5 / 100 * f' + 10 / 100 * e' + 5 / 100 * n')\<bar> \<le> 1 / 2 ^ 40"
    and p: "lit 0.10 * Fin y = Fin p" "p \<le> S"
    using overall_extended_sum [OF j(2,3) c(2,3) k(2,3) m(2,3) y g(2,3) t(2,3) f(2,3) e(2,3) n(2,3)]
    by blast
  have "\<bar>S - (15 / 100 * j' + 15 / 100 * c' + 15 / 100 * k' + 15 / 100 * m' + 10 / 100 * y
          + 5 / 100 * g' + 5 / 100 * t' + 5 / 100 * f' + 10 / 100 * e' + 5 / 100 * n')\<bar>
      \<le> 1 / 1099511627776"
    using err by simp
  then have "S < 201 / 2"
    using j(3) c(3) k(3) m(3) y(2) g(3) t(3) f(3) e(3) n(3) by linarith
  then show "integer_at_most_100 (Math_round (lit 0.15 * j + lit 0.15 * c + lit 0.15 * k + lit 0.15 * m
        + lit 0.10 * Math_round (Fin s) + lit 0.05 * g + lit 0.05 * t + lit 0.05 * f
        + lit 0.10 * e + lit 0.05 * n))"
    unfolding j(1) c(1) k(1) m(1) g(1) t(1) f(1) e(1) n(1) sy S
    by (rule integer_at_most_100_round')
  have le: "Math_round (Fin p) \<le> Math_round (Fin S)" using p(2) by (intro Math_round_mono) simp
  have L: "Math_round (lit 0.10 * Math_round (Fin s)) = Math_round (Fin p)"
    unfolding sy p(1) ..
  have R: "Math_round (lit 0.15 * j + lit 0.15 * c + lit 0.15 * k + lit 0.15 * m
        + lit 0.10 * Math_round (Fin s) + lit 0.05 * g + lit 0.05 * t + lit 0.05 * f
        + lit 0.10 * e + lit 0.05 * n) = Math_round (Fin S)"
    unfolding j(1) c(1) k(1) m(1) g(1) t(1) f(1) e(1) n(1) sy S ..
  show "Math_round (lit 0.10 * Math_round (Fin s))
      \<le> Math_round (lit 0.15 * j + lit 0.15 * c + lit 0.15 * k + lit 0.15 * m
        + lit 0.10 * Math_round (Fin s) + lit 0.05 * g + lit 0.05 * t + lit 0.05 * f
        + lit 0.10 * e + lit 0.05 * n)"
    unfolding L R by (rule le)
qed

lemma potential_expr_range:
  fixes p :: int
  assumes "integer_at_most_100 v" "0 \<le> p" "p \<le> 35"
  shows "score_in_range (Math_round (clamp (v + Fin (of_int p)) (lit 0) (lit 100)))"
proof -
  from assms(1) obtain a where a: "v = Fin a" "a = of_int \<lfloor>a\<rfloor>"
    unfolding integer_at_most_100_def by (cases v) auto
  define n where "n = \<lfloor>a\<rfloor>"
  have v: "v = Fin (of_int n)" using a by (simp add: n_def)
  have "max 0 (min (real_of_int n + real_of_int p) 100) = of_int (max 0 (min (n + p) 100))"
    by (simp add: max_def min_def)
  then have "Math_round (clamp (v + Fin (of_int p)) (lit 0) (lit 100))
      = Fin (of_int (max 0 (min (n + p) 100)))"
    unfolding v round_clamp_sum [OF assms(2,3)] by simp
  moreover have "0 \<le> max 0 (min (n + p) 100)" "max 0 (min (n + p) 100) \<le> 100" by simp_all
  then have "real_of_int 0 \<le> real_of_int (max 0 (min (n + p) 100))"
    "real_of_int (max 0 (min (n + p) 100)) \<le> real_of_int 100"
    by (simp_all only: of_int_le_iff)
  then have "0 \<le> real_of_int (max 0 (min (n + p) 100))" "real_of_int (max 0 (min (n + p) 100)) \<le> 100"
    by simp_all
  ultimately show ?thesis by (simp add: score_in_range_def)
qed

subsection \<open>The sample inputs\<close>

lemma fl_ge_1 [simp]: "1 \<le> x \<Longrightarrow> fl x \<noteq> Fin 0"
proof -
  assume "1 \<le> x"
  then have "Fin 1 \<le> fl x" by (rule fl_ge) simp
  then show ?thesis by (cases "fl x") simp_all
qed

lemma bounded_point_place:
  "list_all (\<lambda>(j, a, b). \<bar>a\<bar> \<le> 2 ^ 500 \<and> \<bar>b\<bar> \<le> 2 ^ 500) table \<Longrightarrow> bounded_point (place table i)"
  by (induction table i rule: place.induct) (simp_all add: bounded_point_def)

lemma bounded_point_mesh:
  "list_all (\<lambda>(j, a, b). \<bar>a\<bar> \<le> 2 ^ 500 \<and> \<bar>b\<bar> \<le> 2 ^ 500) table \<Longrightarrow> list_all bounded_point (mesh table)"
  by (simp add: mesh_def list_all_iff bounded_point_place)

lemma bounded_samples:
  "list_all bounded_point face_frontal" "list_all bounded_point face_lopsided"
  "list_all bounded_point face_coincident"
  unfolding face_frontal_def face_lopsided_def face_coincident_def
  by (rule bounded_point_mesh, simp add: frontal_table_def)+

lemma denominators_nonzero_frontal: "denominators_nonzero face_frontal"
  by (simp add: denominators_nonzero_def face_frontal_def frontal_table_def
      dist_js_same_py dist_js_same_px)

lemma denominators_nonzero_lopsided: "denominators_nonzero face_lopsided"
  by (simp add: denominators_nonzero_def face_lopsided_def frontal_table_def
      dist_js_same_py dist_js_same_px)

lemma fl_lopsided_1: "fl (9 / 8) = Fin (9 / 8)"
  using fl_dyadic [where x = "9 / 8" and n = 3 and k = "9"] by simp

lemma fl_lopsided_2: "fl (- (1 / 8)) = Fin (- (1 / 8))"
  using fl_dyadic [where x = "- (1 / 8)" and n = 3 and k = "- 1"] by simp

lemma fl_lopsided_3: "fl (- (25 / 2)) = Fin (- (25 / 2))"
  using fl_dyadic [where x = "- (25 / 2)" and n = 1 and k = "- 25"] by simp

lemma fl_lopsided_4: "fl (- (75 / 2)) = Fin (- (75 / 2))"
  using fl_dyadic [where x = "- (75 / 2)" and n = 1 and k = "- 75"] by simp

lemma sub_lopsided:
  "calculateSymmetry (face_lopsided ! 168) (face_lopsided ! 263) (face_lopsided ! 33) = Fin (- 25 / 2)"
  "calculateSymmetry (face_lopsided ! 168) (face_lopsided ! 123) (face_lopsided ! 352) = Fin (- 25 / 2)"
  "calculateSymmetry (face_lopsided ! 168) (face_lopsided ! 172) (face_lopsided ! 397) = Fin (- 25 / 2)"
  by (simp_all add: face_lopsided_def frontal_table_def calculateSymmetry_def Let_def
      dist_js_same_py dist_js_same_px Math_abs_def fl_lopsided_1 fl_lopsided_2 fl_lopsided_3 fl_lopsided_4)

lemma symmetry_lopsided:
  "symmetry (projr (analyzeFace_extended [face_lopsided] quality_good)) = Fin (- 12)"
  unfolding extended_returns_lopsided sum.sel symmetry_extended_eq
  by (simp add: named_points_def sub_lopsided fl_lopsided_1 fl_lopsided_2 fl_lopsided_3 fl_lopsided_4)

text \<open>
  C1, as amended. When the coordinates of the keypoints are at most \<open>2 ^ 500\<close> in
  magnitude, the quality metrics are finite and none of the numbers that the program
  divides by is zero (face width, face height, jaw width, mouth width, the mean eye
  width, the distance from nose bridge to chin, the mean third and the mean fifth, as
  computed), the Extended analysis returns, and jawline, cheekbones, masculinity, skin
  quality, golden ratio, facial thirds, facial fifths, eye score, nose score and potential
  are integers from 0 to 100. Symmetry and overall are integers at most 100, and overall
  is at least the rounded tenth of symmetry, which is its share of the weighted sum.
\<close>

theorem scores_in_range_when_denominators_nonzero:
  assumes len: "454 < length keypoints"
    and bnd: "list_all bounded_point keypoints"
    and qfin: "isFinite (sharpness q)" "isFinite (brightness q)" "isFinite (contrast q)"
    and nz: "denominators_nonzero keypoints"
  shows "\<exists>r. analyzeFace_extended (keypoints # others) q = Inr r
    \<and> score_in_range (jawline r) \<and> score_in_range (cheekbones r)
    \<and> score_in_range (masculinity r) \<and> score_in_range (skin_quality r)
    \<and> score_in_range (golden_ratio r) \<and> score_in_range (facial_thirds r)
    \<and> score_in_range (facial_fifths r) \<and> score_in_range (eye_score r)
    \<and> score_in_range (nose_score r) \<and> score_in_range (potential r)
    \<and> integer_at_most_100 (symmetry r) \<and> integer_at_most_100 (overall r)
    \<and> Math_round (lit 0.10 * symmetry r) \<le> overall r"
proof -
  define lm where "lm = named_points keypoints"
  define r where "r = scores_extended lm keypoints q"
  have ret: "analyzeFace_extended (keypoints # others) q = Inr r"
    unfolding r_def lm_def using len by (rule analyzeFace_extended_returns)
  have kp: "\<And>i. i \<le> 454 \<Longrightarrow> bounded_point (keypoints ! i)"
    using len bnd by (simp add: list_all_length)
  have f: "bounded_point (forehead_top lm)" "bounded_point (chin_bottom lm)"
    "bounded_point (face_left lm)" "bounded_point (face_right lm)"
    "bounded_point (cheek_left lm)" "bounded_point (cheek_right lm)"
    "bounded_point (jaw_left lm)" "bounded_point (jaw_right lm)"
    "bounded_point (mouth_bottom lm)" "bounded_point (eye_right_outer lm)"
    "bounded_point (eye_right_inner lm)" "bounded_point (eye_left_inner lm)"
    "bounded_point (eye_left_outer lm)" "bounded_point (nose_center lm)"
    "bounded_point (nose_base lm)" "bounded_point (nose_tip lm)"
    "bounded_point (mouth_left lm)" "bounded_point (mouth_right lm)"
    "bounded_point (nose_left lm)" "bounded_point (nose_right lm)"
    unfolding lm_def named_points_def by (simp_all add: kp)
  have d: "dist_js (face_left lm) (face_right lm) \<noteq> 0"
    "dist_js (forehead_top lm) (chin_bottom lm) \<noteq> 0"
    "dist_js (jaw_left lm) (jaw_right lm) \<noteq> 0"
    "dist_js (mouth_left lm) (mouth_right lm) \<noteq> 0"
    "(dist_js (eye_right_outer lm) (eye_right_inner lm)
       + dist_js (eye_left_inner lm) (eye_left_outer lm)) / lit 2 \<noteq> 0"
    "dist_js (nose_center lm) (chin_bottom lm) \<noteq> 0"
    "(dist_js (forehead_top lm) (nose_base lm) + dist_js (nose_base lm) (nose_tip lm)
       + dist_js (nose_tip lm) (chin_bottom lm)) / lit 3 \<noteq> 0"
    "(dist_js (face_left lm) (eye_right_outer lm) + dist_js (eye_right_outer lm) (eye_right_inner lm)
       + dist_js (eye_right_inner lm) (eye_left_inner lm) + dist_js (eye_left_inner lm) (eye_left_outer lm)
       + dist_js (eye_left_outer lm) (face_right lm)) / lit 5 \<noteq> 0"
    using nz unfolding denominators_nonzero_def lm_def named_points_def
    by (simp_all del: zero_number_Fin lit_numeral)
  have j: "score_in_range (jawline r)"
    unfolding r_def jawline_extended_eq by (rule jawline_expr_range) (fact f d)+
  have c: "score_in_range (cheekbones r)"
    unfolding r_def cheekbones_extended_eq by (rule cheekbones_expr_range) (fact f d)+
  have m: "score_in_range (masculinity r)"
    unfolding r_def masculinity_extended_eq by (rule masculinity_expr_range) (fact f d)+
  have s: "score_in_range (skin_quality r)"
    unfolding r_def skin_quality_extended_eq by (rule skin_quality_expr_range) (fact qfin)+
  have g: "score_in_range (golden_ratio r)"
    unfolding r_def golden_ratio_extended_eq by (rule golden_ratio_expr_range) (fact f d)+
  have t: "score_in_range (facial_thirds r)"
    unfolding r_def facial_thirds_extended_eq Let_def
    by (rule facial_thirds_expr_range) (fact f d)+
  have ff: "score_in_range (facial_fifths r)"
    unfolding r_def facial_fifths_extended_eq Let_def
    by (rule facial_fifths_expr_range) (fact f d)+
  have e: "score_in_range (eye_score r)"
    unfolding r_def eye_score_extended_eq by (rule eye_score_expr_range) (fact f d)+
  have n: "score_in_range (nose_score r)"
    unfolding r_def nose_score_extended_eq by (rule nose_score_expr_range) (fact f d)+
  obtain sm where sm: "(calculateSymmetry (nose_center lm) (eye_left_outer lm) (eye_right_outer lm)
       + calculateSymmetry (nose_center lm) (cheek_left lm) (cheek_right lm)
       + calculateSymmetry (nose_center lm) (jaw_left lm) (jaw_right lm)) / lit 3 = Fin sm"
    "- 300 \<le> sm" "sm \<le> 100"
    using symmetry_expr_range [OF f(14) f(13) f(10) f(5) f(6) f(7) f(8)] by blast
  have syr: "symmetry r = Math_round (Fin sm)"
    unfolding r_def symmetry_extended_eq sm(1) ..
  have sy: "integer_at_most_100 (symmetry r)"
    unfolding syr using sm(3) by (intro integer_at_most_100_round') simp
  note ovr = overall_extended_expr_range [OF j c s m sm(2,3) g t ff e n, folded syr]
  have ov: "integer_at_most_100 (overall r)"
    using ovr(1) unfolding r_def by (subst overall_extended_eq)
  have ov0: "Math_round (lit 0.10 * symmetry r) \<le> overall r"
    using ovr(2) unfolding r_def by (subst overall_extended_eq)
  obtain p :: int where p: "fst (photo_extended q) = Fin (of_int p)" "0 \<le> p" "p \<le> 35"
    using photo_extended_penalty by blast
  have po: "score_in_range (potential r)"
    unfolding r_def potential_extended_eq p(1)
    by (rule potential_expr_range [OF ov [unfolded r_def] p(2,3)])
  from ret j c m s g t ff e n po sy ov ov0 show ?thesis by blast
qed

theorem scores_in_range_when_denominators_nonzero_witness:
  "454 < length face_frontal \<and> list_all bounded_point face_frontal
   \<and> isFinite (sharpness quality_good) \<and> isFinite (brightness quality_good)
   \<and> isFinite (contrast quality_good) \<and> denominators_nonzero face_frontal
   \<and> (\<exists>r. analyzeFace_extended [face_frontal] quality_good = Inr r
    \<and> score_in_range (jawline r) \<and> score_in_range (cheekbones r)
    \<and> score_in_range (masculinity r) \<and> score_in_range (skin_quality r)
    \<and> score_in_range (golden_ratio r) \<and> score_in_range (facial_thirds r)
    \<and> score_in_range (facial_fifths r) \<and> score_in_range (eye_score r)
    \<and> score_in_range (nose_score r) \<and> score_in_range (potential r)
    \<and> integer_at_most_100 (symmetry r) \<and> integer_at_most_100 (overall r)
    \<and> Math_round (lit 0.10 * symmetry r) \<le> overall r)"
proof -
  have len: "454 < length face_frontal" by (simp add: face_frontal_def)
  note fin = bounded_samples(1)
  have q: "isFinite (sharpness quality_good)" "isFinite (brightness quality_good)"
    "isFinite (contrast quality_good)" by (simp_all add: quality_good_def)
  note nz = denominators_nonzero_frontal
  from scores_in_range_when_denominators_nonzero [OF len fin q nz, of "[]"] len fin q nz
  show ?thesis by blast
qed

theorem score_range_counterexample:
  "list_all bounded_point face_coincident
   \<and> \<not> isl (analyzeFace_extended [face_coincident] quality_good)
   \<and> cheekbones (projr (analyzeFace_extended [face_coincident] quality_good)) = NaN
   \<and> \<not> score_in_range (cheekbones (projr (analyzeFace_extended [face_coincident] quality_good)))
   \<and> list_all bounded_point face_lopsided \<and> denominators_nonzero face_lopsided
   \<and> \<not> isl (analyzeFace_extended [face_lopsided] quality_good)
   \<and> symmetry (projr (analyzeFace_extended [face_lopsided] quality_good)) = Fin (- 12)
   \<and> \<not> score_in_range (symmetry (projr (analyzeFace_extended [face_lopsided] quality_good)))"
proof -
  have b: "\<not> isl (analyzeFace_extended [face_coincident] quality_good)"
    "\<not> isl (analyzeFace_extended [face_lopsided] quality_good)"
    by (simp_all add: extended_returns_coincident extended_returns_lopsided)
  have c: "\<not> score_in_range (cheekbones (projr (analyzeFace_extended [face_coincident] quality_good)))"
    "\<not> score_in_range (symmetry (projr (analyzeFace_extended [face_lopsided] quality_good)))"
    unfolding cheekbones_coincident symmetry_lopsided by (simp_all add: score_in_range_def)
  from bounded_samples(2,3) b c cheekbones_coincident symmetry_lopsided denominators_nonzero_lopsided
  show ?thesis by blast
qed

end
